theory Spec2Isabelle
  imports Complex_Main "HOL-Library.Word"
begin

section \<open>The data of the application\<close>

text \<open>
  The application is one React component (\<^verbatim>\<open>App\<close>) whose state lives in
  \<^verbatim>\<open>useState\<close> cells and \<^verbatim>\<open>useRef\<close> boxes, plus the module
  \<^verbatim>\<open>services/geminiService\<close> with two module variables. Every handler runs to
  completion on the event loop, so a handler is a function from the state before to the
  state after. The state below is the second (later) version of the component, the one
  with the trimmed credential, the video stream and the frame timer.
\<close>

datatype LiveStatus = DISCONNECTED | CONNECTING | CONNECTED | ERROR

text \<open>
  The role of a pending utterance has the type \<^verbatim>\<open>'user' | 'model'\<close>, the role of a
  log entry the larger type \<^verbatim>\<open>'user' | 'system' | 'model'\<close>. The inclusion of the
  first in the second is \<open>log_role\<close>.
\<close>

datatype speaker = User | Model

datatype Role = LUser | LSystem | LModel

fun log_role :: "speaker \<Rightarrow> Role" where
  "log_role User = LUser"
| "log_role Model = LModel"

text \<open>
  A \<^verbatim>\<open>LogMessage\<close> is kept as its role and its text. Its \<^verbatim>\<open>id\<close> (a random
  string) and its \<^verbatim>\<open>timestamp\<close> (the wall clock) are not functions of the state
  and no handler reads them.
\<close>

type_synonym LogMessage = "Role \<times> string"

datatype VideoMode = VNone | Camera | Screen

text \<open>
  A credential is a JavaScript string, a sequence of UTF-16 code units: the characters
  that \<^verbatim>\<open>trim\<close> removes are told apart by their code unit. Texts of the log and
  of the transcript are only tested for emptiness and concatenated, and are kept as
  \<^typ>\<open>string\<close>.
\<close>

type_synonym code_unit = "16 word"
type_synonym js_string = "code_unit list"

text \<open>
  A scheduled \<^verbatim>\<open>AudioBufferSourceNode\<close>: the time given to its \<^verbatim>\<open>start\<close> and
  the duration of its buffer. Times are the seconds of the audio clock, taken as real
  numbers.
\<close>

record source_node =
  start_time :: real
  duration :: real

text \<open>
  The calls a handler makes on the platform objects it holds: starting and stopping a
  scheduled source, and the release calls of \<^verbatim>\<open>cleanup\<close>. Platform objects
  (contexts, streams, nodes, timers) are named by a number.
\<close>

datatype call =
    SourceStart source_node
  | SourceStop source_node
  | NodeDisconnect nat
  | ContextClose nat
  | TracksStop nat
  | ClearInterval nat

text \<open>
  The module \<^verbatim>\<open>services/geminiService\<close>: the cached client and the key it was
  built with. A client is an object; \<open>serial\<close> tells two constructions apart, and
  \<open>constructed\<close> counts the runs of \<^verbatim>\<open>new GoogleGenAI\<close>.
\<close>

record client =
  client_key :: js_string
  serial :: nat

record genai =
  aiClient :: "client option"
  currentApiKey :: "js_string option"
  constructed :: nat

record app_state =
  status :: LiveStatus
  logs :: "LogMessage list"
  streamingLog :: "(speaker \<times> string) option"
  showSettings :: bool
  videoMode :: VideoMode
  apiKey :: js_string
  sessionRef :: "nat option"
  audioContextRef :: "nat option"
  inputAudioContextRef :: "nat option"
  audioStreamRef :: "nat option"
  videoStreamRef :: "nat option"
  audioSourceRef :: "nat option"
  processorRef :: "nat option"
  analyserRef :: "nat option"
  frameIntervalRef :: "nat option"
  nextStartTimeRef :: real
  audioSourcesRef :: "source_node list"
  currentTranscriptRef :: "(speaker \<times> string) option"
  service :: genai
  calls :: "call list"

text \<open>
  \<open>audioSourcesRef\<close> is a \<^verbatim>\<open>Set\<close> of nodes, kept in insertion order as a
  JavaScript set is. Each node added is a fresh object, so adding appends. The removal
  of a node when its playback ends (\<^verbatim>\<open>onended\<close>) is an event of its own; it is
  not one of the handlers below.

  \<open>service\<close> is the state of the module \<^verbatim>\<open>services/geminiService\<close>.
  \<open>calls\<close> is not a cell of the component: it records, in order, the calls the
  handlers make on platform objects. The cells that none of the handlers below reads are
  left out: the selected voice, the measured volume, the system instruction, the
  authentication mode, and the references to the video element, its canvas and the log
  container.
\<close>

text \<open>
  The part of a \<^verbatim>\<open>LiveServerMessage\<close> the handler reads. A field under
  \<^verbatim>\<open>?.\<close> that is missing is \<open>None\<close>; the two flags are tested for truth.
\<close>

record message =
  inlineData :: "string option"
  inputTranscription :: "string option"
  outputTranscription :: "string option"
  turnComplete :: bool
  interrupted :: bool

text \<open>
  What a run of the asynchronous message handler leaves behind: it returned, or an
  exception ended it (its promise is rejected). The state is the one it left.
\<close>

datatype outcome = Returned app_state | Rejected app_state

fun state_after :: "outcome \<Rightarrow> app_state" where
  "state_after (Returned s) = s"
| "state_after (Rejected s) = s"

section \<open>The handlers\<close>

text \<open>
  The message, close and error callbacks of the session, \<^verbatim>\<open>cleanup\<close>,
  \<^verbatim>\<open>getGenAIClient\<close> and \<^verbatim>\<open>connect\<close> up to the point where the session
  promise is stored. What \<^verbatim>\<open>connect\<close> awaits is taken in one step: the answers
  of the platform are given with the call.
\<close>

definition addLog :: "Role \<Rightarrow> string \<Rightarrow> app_state \<Rightarrow> app_state" where
  "addLog r t s = s\<lparr>logs := logs s @ [(r, t)]\<rparr>"

subsection \<open>The message handler\<close>

text \<open>
  \<^verbatim>\<open>pcmToAudioBuffer(decodeBase64(b), ctx)\<close> comes from \<^verbatim>\<open>utils/audioUtils\<close>,
  which is not among the sources. It is the parameter \<open>decode\<close>: \<open>Some d\<close> is a
  buffer of duration \<open>d\<close>, \<open>None\<close> is an exception. The parameter \<open>now\<close> is
  \<^verbatim>\<open>ctx.currentTime\<close> when the handler runs.
\<close>

definition handleAudioOutput ::
  "(string \<Rightarrow> real option) \<Rightarrow> real \<Rightarrow> app_state \<Rightarrow> message \<Rightarrow> app_state option" where
  "handleAudioOutput decode now s m =
     (case inlineData m of
        None \<Rightarrow> Some s
      | Some base64Audio \<Rightarrow>
          if base64Audio \<noteq> [] \<and> audioContextRef s \<noteq> None then
            (case decode base64Audio of
               None \<Rightarrow> None
             | Some d \<Rightarrow>
                 let start = max (nextStartTimeRef s) now;
                     source = \<lparr>start_time = start, duration = d\<rparr>
                 in Some (s\<lparr>nextStartTimeRef := start + d,
                            audioSourcesRef := audioSourcesRef s @ [source],
                            calls := calls s @ [SourceStart source]\<rparr>))
          else Some s)"

text \<open>
  Blocks 1 and 2 of the handler are the same code, once for \<^verbatim>\<open>'user'\<close> with the
  input transcription and once for \<^verbatim>\<open>'model'\<close> with the output transcription.
\<close>

definition transcription :: "speaker \<Rightarrow> string option \<Rightarrow> app_state \<Rightarrow> app_state" where
  "transcription who tr s =
     (case tr of
        None \<Rightarrow> s
      | Some t \<Rightarrow>
          if t = [] then s
          else
            let s1 = (case currentTranscriptRef s of
                        Some (r, txt) \<Rightarrow>
                          if r \<noteq> who
                          then (addLog (log_role r) txt s)\<lparr>currentTranscriptRef := None\<rparr>
                          else s
                      | None \<Rightarrow> s);
                s2 = (case currentTranscriptRef s1 of
                        None \<Rightarrow> s1\<lparr>currentTranscriptRef := Some (who, [])\<rparr>
                      | Some c \<Rightarrow> s1);
                s3 = (case currentTranscriptRef s2 of
                        Some (r, txt) \<Rightarrow> s2\<lparr>currentTranscriptRef := Some (r, txt @ t)\<rparr>
                      | None \<Rightarrow> s2)
            in s3\<lparr>streamingLog := currentTranscriptRef s3\<rparr>)"

definition turnCompletion :: "app_state \<Rightarrow> message \<Rightarrow> app_state" where
  "turnCompletion s m =
     (if turnComplete m then
        (case currentTranscriptRef s of
           Some (r, txt) \<Rightarrow>
             (addLog (log_role r) txt s)\<lparr>currentTranscriptRef := None, streamingLog := None\<rparr>
         | None \<Rightarrow> s)
      else s)"

definition interruption :: "app_state \<Rightarrow> message \<Rightarrow> app_state" where
  "interruption s m =
     (if interrupted m then
        let s1 = addLog LSystem ''Interrupted by user.'' s;
            s2 = s1\<lparr>calls := calls s1 @ map SourceStop (audioSourcesRef s1),
                     audioSourcesRef := [],
                     nextStartTimeRef := 0\<rparr>
        in (case currentTranscriptRef s2 of
              Some (r, txt) \<Rightarrow>
                if r = Model
                then (addLog LModel (txt @ '' [Interrupted]'') s2)
                       \<lparr>currentTranscriptRef := None, streamingLog := None\<rparr>
                else s2
            | None \<Rightarrow> s2)
      else s)"

text \<open>
  The handler has no \<^verbatim>\<open>try\<close>: an exception of the decoder ends the run before the
  first assignment, and nothing after it in the handler is run.
\<close>

definition onmessage ::
  "(string \<Rightarrow> real option) \<Rightarrow> real \<Rightarrow> app_state \<Rightarrow> message \<Rightarrow> outcome" where
  "onmessage decode now s m =
     (case handleAudioOutput decode now s m of
        None \<Rightarrow> Rejected s
      | Some s1 \<Rightarrow>
          Returned
            (interruption
               (turnCompletion
                  (transcription Model (outputTranscription m)
                     (transcription User (inputTranscription m) s1)) m) m))"

text \<open>
  The messages of a session, each with the audio clock at its arrival, handled in
  arrival order. A rejected run does not stop the session: the next message is handled
  from the state the rejected run left. The result is \<open>Returned\<close> when every run
  returned.
\<close>

fun receive ::
  "(string \<Rightarrow> real option) \<Rightarrow> app_state \<Rightarrow> (real \<times> message) list \<Rightarrow> outcome" where
  "receive decode s [] = Returned s"
| "receive decode s ((now, m) # ms) =
     (case onmessage decode now s m of
        Returned s1 \<Rightarrow> receive decode s1 ms
      | Rejected s1 \<Rightarrow> Rejected (state_after (receive decode s1 ms)))"

definition onclose :: "app_state \<Rightarrow> app_state" where
  "onclose s =
     (addLog LSystem ''Connection closed.'' s)
       \<lparr>status := DISCONNECTED, currentTranscriptRef := None, streamingLog := None\<rparr>"

definition onerror :: "app_state \<Rightarrow> app_state" where
  "onerror s = (addLog LSystem ''Error occurred. Check console.'' s)\<lparr>status := ERROR\<rparr>"

subsection \<open>Teardown\<close>

text \<open>
  A timer handle is tested for truth, so the handle 0 would be left alone; the handles
  \<^verbatim>\<open>setInterval\<close> gives are positive. The other references hold objects, which
  are true.
\<close>

text \<open>
  \<^verbatim>\<open>cleanup\<close> is a sequence of statements, one per reference it releases; each
  statement is one function here, in the order of the source.
\<close>

definition stopSources :: "app_state \<Rightarrow> app_state" where
  "stopSources s =
     s\<lparr>calls := calls s @ map SourceStop (audioSourcesRef s), audioSourcesRef := []\<rparr>"

definition disconnectProcessor :: "app_state \<Rightarrow> app_state" where
  "disconnectProcessor s =
     (case processorRef s of
        Some p \<Rightarrow> s\<lparr>calls := calls s @ [NodeDisconnect p], processorRef := None\<rparr>
      | None \<Rightarrow> s)"

definition disconnectAudioSource :: "app_state \<Rightarrow> app_state" where
  "disconnectAudioSource s =
     (case audioSourceRef s of
        Some a \<Rightarrow> s\<lparr>calls := calls s @ [NodeDisconnect a], audioSourceRef := None\<rparr>
      | None \<Rightarrow> s)"

definition closeAudioContext :: "app_state \<Rightarrow> app_state" where
  "closeAudioContext s =
     (case audioContextRef s of
        Some c \<Rightarrow> s\<lparr>calls := calls s @ [ContextClose c], audioContextRef := None\<rparr>
      | None \<Rightarrow> s)"

definition closeInputAudioContext :: "app_state \<Rightarrow> app_state" where
  "closeInputAudioContext s =
     (case inputAudioContextRef s of
        Some c \<Rightarrow> s\<lparr>calls := calls s @ [ContextClose c], inputAudioContextRef := None\<rparr>
      | None \<Rightarrow> s)"

definition stopAudioStream :: "app_state \<Rightarrow> app_state" where
  "stopAudioStream s =
     (case audioStreamRef s of
        Some a \<Rightarrow> s\<lparr>calls := calls s @ [TracksStop a], audioStreamRef := None\<rparr>
      | None \<Rightarrow> s)"

definition stopVideoStream :: "app_state \<Rightarrow> app_state" where
  "stopVideoStream s =
     (case videoStreamRef s of
        Some v \<Rightarrow> s\<lparr>calls := calls s @ [TracksStop v], videoStreamRef := None\<rparr>
      | None \<Rightarrow> s)"

definition clearFrameInterval :: "app_state \<Rightarrow> app_state" where
  "clearFrameInterval s =
     (case frameIntervalRef s of
        Some h \<Rightarrow>
          if h \<noteq> 0
          then s\<lparr>calls := calls s @ [ClearInterval h], frameIntervalRef := None\<rparr>
          else s
      | None \<Rightarrow> s)"

definition resetSession :: "app_state \<Rightarrow> app_state" where
  "resetSession s =
     s\<lparr>nextStartTimeRef := 0, sessionRef := None, currentTranscriptRef := None,
       streamingLog := None, status := DISCONNECTED\<rparr>"

text \<open>The release call made for a reference, if it holds an object.\<close>

definition released :: "(nat \<Rightarrow> call) \<Rightarrow> nat option \<Rightarrow> call list" where
  "released c r = (case r of Some x \<Rightarrow> [c x] | None \<Rightarrow> [])"

definition cleanup :: "app_state \<Rightarrow> app_state" where
  "cleanup s =
     addLog LSystem ''Session ended''
       (resetSession
          (clearFrameInterval
             (stopVideoStream
                (stopAudioStream
                   (closeInputAudioContext
                      (closeAudioContext
                         (disconnectAudioSource
                            (disconnectProcessor
                               (stopSources s)))))))))"

subsection \<open>The client cache of \<^verbatim>\<open>services/geminiService\<close>\<close>

text \<open>
  A value tested for truth: \<^verbatim>\<open>undefined\<close> and the empty string are false, any
  other string is true.
\<close>

fun truthy :: "js_string option \<Rightarrow> bool" where
  "truthy None = False"
| "truthy (Some k) = (k \<noteq> [])"

text \<open>
  \<open>envKey\<close> is \<^verbatim>\<open>process.env.API_KEY\<close>. The result is the returned client or
  the message of the thrown error, with the module state after the call. The two
  versions of the module differ in the text of the message only; the later one is taken.
\<close>

definition getGenAIClient ::
  "js_string option \<Rightarrow> js_string option \<Rightarrow> genai \<Rightarrow> (string + client) \<times> genai" where
  "getGenAIClient key envKey g =
     (case (if truthy key then key else envKey) of
        None \<Rightarrow>
          (Inl ''Credentials are not set. Please configure API Key or Token in settings.'', g)
      | Some keyToUse \<Rightarrow>
          if keyToUse = [] then
            (Inl ''Credentials are not set. Please configure API Key or Token in settings.'', g)
          else
            let fresh = \<lparr>client_key = keyToUse, serial = constructed g\<rparr>;
                renewed = (Inr fresh,
                           g\<lparr>aiClient := Some fresh, currentApiKey := Some keyToUse,
                             constructed := Suc (constructed g)\<rparr>)
            in (case aiClient g of
                  None \<Rightarrow> renewed
                | Some c \<Rightarrow> if currentApiKey g \<noteq> Some keyToUse then renewed else (Inr c, g)))"

subsection \<open>Opening a session\<close>

text \<open>
  \<^verbatim>\<open>String.prototype.trim\<close> removes from both ends the code units that ECMAScript
  calls white space or line terminators: TAB, LF, VT, FF, CR, SPACE, NBSP, U+1680,
  U+2000 to U+200A, U+2028, U+2029, U+202F, U+205F, U+3000 and U+FEFF.
\<close>

definition isWhiteSpace :: "code_unit \<Rightarrow> bool" where
  "isWhiteSpace c \<longleftrightarrow>
     c = 0x9 \<or> c = 0xA \<or> c = 0xB \<or> c = 0xC \<or> c = 0xD \<or> c = 0x20 \<or> c = 0xA0 \<or>
     c = 0x1680 \<or> (0x2000 \<le> c \<and> c \<le> 0x200A) \<or> c = 0x2028 \<or> c = 0x2029 \<or>
     c = 0x202F \<or> c = 0x205F \<or> c = 0x3000 \<or> c = 0xFEFF"

definition trim :: "js_string \<Rightarrow> js_string" where
  "trim k = rev (dropWhile isWhiteSpace (rev (dropWhile isWhiteSpace k)))"

text \<open>\<^verbatim>\<open>String.prototype.includes\<close>: the pattern occurs somewhere in the text.\<close>

fun str_includes :: "string \<Rightarrow> string \<Rightarrow> bool" where
  "str_includes [] pat = (pat = [])"
| "str_includes (c # cs) pat = (take (length pat) (c # cs) = pat \<or> str_includes cs pat)"

text \<open>
  What the browser and the SDK answer during \<^verbatim>\<open>connect\<close>: each call gives a new
  object (\<open>Inr\<close>, its number) or throws (\<open>Inl\<close>, the message of the error; a missing
  message and the empty message are both false and are the empty text).
\<close>

record platform =
  newAudioContext :: "nat \<Rightarrow> string + nat"
  getUserMediaAudio :: "string + nat"
  getUserMediaVideo :: "string + nat"
  getDisplayMedia :: "string + nat"
  createAnalyser :: nat
  liveConnect :: "client \<Rightarrow> string + nat"
  envApiKey :: "js_string option"

definition videoFailed :: "app_state \<Rightarrow> app_state" where
  "videoFailed s =
     (addLog LSystem
        ''Video/Screen access denied or cancelled. Continuing with audio only.'' s)
       \<lparr>videoMode := VNone\<rparr>"

definition setupVideo :: "platform \<Rightarrow> app_state \<Rightarrow> nat option \<times> app_state" where
  "setupVideo p s =
     (case videoMode s of
        Camera \<Rightarrow>
          (case getUserMediaVideo p of
             Inr v \<Rightarrow> (Some v, s)
           | Inl e \<Rightarrow> (None, videoFailed s))
      | Screen \<Rightarrow>
          (case getDisplayMedia p of
             Inr v \<Rightarrow> (Some v, s)
           | Inl e \<Rightarrow> (None, videoFailed s))
      | VNone \<Rightarrow> (None, s))"

text \<open>
  The body of the \<^verbatim>\<open>try\<close> after the check of the credential. An exception leaves
  with its message and the state reached so far.
\<close>

definition tryConnect ::
  "platform \<Rightarrow> js_string \<Rightarrow> app_state \<Rightarrow> (string \<times> app_state) + app_state" where
  "tryConnect p cleanKey s =
     (let s1 = addLog LSystem ''Initializing devices...'' (s\<lparr>status := CONNECTING\<rparr>) in
      case newAudioContext p 16000 of
        Inl e \<Rightarrow> Inl (e, s1)
      | Inr inputCtx \<Rightarrow>
          let s2 = s1\<lparr>inputAudioContextRef := Some inputCtx\<rparr> in
          (case newAudioContext p 24000 of
             Inl e \<Rightarrow> Inl (e, s2)
           | Inr outputCtx \<Rightarrow>
               let s3 = s2\<lparr>audioContextRef := Some outputCtx\<rparr> in
               (case getUserMediaAudio p of
                  Inl e \<Rightarrow> Inl (e, s3)
                | Inr audioStream \<Rightarrow>
                    let s4 = s3\<lparr>audioStreamRef := Some audioStream\<rparr>;
                        (videoStream, s5) = setupVideo p s4;
                        s6 = s5\<lparr>videoStreamRef := videoStream\<rparr>;
                        s7 = s6\<lparr>analyserRef := Some (createAnalyser p)\<rparr>;
                        s8 = addLog LSystem ''Connecting to Gemini Live...'' s7
                    in (case getGenAIClient (Some cleanKey) (envApiKey p) (service s8) of
                          (Inl e, g) \<Rightarrow> Inl (e, s8\<lparr>service := g\<rparr>)
                        | (Inr cl, g) \<Rightarrow>
                            (case liveConnect p cl of
                               Inl e \<Rightarrow> Inl (e, s8\<lparr>service := g\<rparr>)
                             | Inr sessionPromise \<Rightarrow>
                                 Inr (s8\<lparr>service := g,
                                         sessionRef := Some sessionPromise\<rparr>))))))"

definition failureNotice :: "string \<Rightarrow> string" where
  "failureNotice e =
     (if e \<noteq> [] \<and> str_includes e ''503'' then
        ''Service Unavailable (503). The model may be overloaded or the region is temporarily down. Please try again shortly.''
      else ''Connection failed: '' @ (if e \<noteq> [] then e else ''Network Error. Check API Key.''))"

definition connect :: "platform \<Rightarrow> app_state \<Rightarrow> app_state" where
  "connect p s =
     (let cleanKey = trim (apiKey s) in
      if cleanKey = [] then
        (addLog LSystem ''Credentials missing. Please configure in settings.'' s)
          \<lparr>showSettings := True\<rparr>
      else
        (case tryConnect p cleanKey s of
           Inr s' \<Rightarrow> s'
         | Inl (e, s') \<Rightarrow> cleanup (addLog LSystem (failureNotice e) s')))"

subsection \<open>States to run the handlers on\<close>

text \<open>
  The state of the component when it is mounted, with the credential read from local
  storage, and the state of a session in progress: connected, with the two audio
  contexts, the microphone stream and its nodes, a camera stream with its frame timer,
  one reply segment scheduled and a model utterance pending.
\<close>

definition initial :: "js_string \<Rightarrow> app_state" where
  "initial key =
     \<lparr>status = DISCONNECTED, logs = [], streamingLog = None, showSettings = False,
      videoMode = VNone, apiKey = key, sessionRef = None, audioContextRef = None,
      inputAudioContextRef = None, audioStreamRef = None, videoStreamRef = None,
      audioSourceRef = None, processorRef = None, analyserRef = None,
      frameIntervalRef = None, nextStartTimeRef = 0, audioSourcesRef = [],
      currentTranscriptRef = None,
      service = \<lparr>aiClient = None, currentApiKey = None, constructed = 0\<rparr>,
      calls = []\<rparr>"

definition session_in_progress :: app_state where
  "session_in_progress =
     \<lparr>status = CONNECTED,
      logs = [(LSystem, ''Initializing devices...''), (LSystem, ''Connecting to Gemini Live...''),
              (LSystem, ''Connected! Start talking.''),
              (LSystem, ''Streaming camera feed...''), (LUser, ''Hello'')],
      streamingLog = Some (Model, ''Hi the''), showSettings = False,
      videoMode = Camera, apiKey = [0x41, 0x49], sessionRef = Some 8,
      audioContextRef = Some 2, inputAudioContextRef = Some 1, audioStreamRef = Some 3,
      videoStreamRef = Some 4, audioSourceRef = Some 6, processorRef = Some 7,
      analyserRef = Some 5, frameIntervalRef = Some 9, nextStartTimeRef = 5 / 2,
      audioSourcesRef = [\<lparr>start_time = 3 / 2, duration = 1\<rparr>],
      currentTranscriptRef = Some (Model, ''Hi the''),
      service = \<lparr>aiClient = Some \<lparr>client_key = [0x41, 0x49], serial = 0\<rparr>,
                 currentApiKey = Some [0x41, 0x49], constructed = 1\<rparr>,
      calls = [SourceStart \<lparr>start_time = 3 / 2, duration = 1\<rparr>]\<rparr>"

text \<open>
  A message that carries the interruption flag and nothing else, a browser in which every
  request but screen sharing is granted, and a decoder for the examples: it refuses a
  payload whose length is not a multiple of four, as such a text is not base64, and
  otherwise makes a buffer of a quarter second for every four characters.
\<close>

definition interruption_signal :: message where
  "interruption_signal =
     \<lparr>inlineData = None, inputTranscription = None, outputTranscription = None,
      turnComplete = False, interrupted = True\<rparr>"

definition audio_message :: "string \<Rightarrow> message" where
  "audio_message b =
     \<lparr>inlineData = Some b, inputTranscription = None, outputTranscription = None,
      turnComplete = False, interrupted = False\<rparr>"

definition browser :: platform where
  "browser =
     \<lparr>newAudioContext = (\<lambda>rate. Inr (if rate = 16000 then 1 else 2)),
      getUserMediaAudio = Inr 3, getUserMediaVideo = Inr 4,
      getDisplayMedia = Inl ''Permission denied'', createAnalyser = 5,
      liveConnect = (\<lambda>c. Inr 8), envApiKey = None\<rparr>"

definition sample_decode :: "string \<Rightarrow> real option" where
  "sample_decode b = (if length b mod 4 = 0 then Some (real (length b) / 16) else None)"

subsection \<open>The schedule of the specification\<close>

text \<open>
  The playback scheduler as the specification words it (section 4.4, steps 1 to 3), on
  the list of the segments' arrival clocks and durations, from a given cursor: each
  segment starts at the later of the cursor and the clock, and the cursor moves to that
  start plus the duration.
\<close>

fun schedule :: "real \<Rightarrow> (real \<times> real) list \<Rightarrow> source_node list" where
  "schedule cursor [] = []"
| "schedule cursor ((clock, d) # rest) =
     \<lparr>start_time = max cursor clock, duration = d\<rparr> # schedule (max cursor clock + d) rest"

fun cursor_after :: "real \<Rightarrow> (real \<times> real) list \<Rightarrow> real" where
  "cursor_after cursor [] = cursor"
| "cursor_after cursor ((clock, d) # rest) = cursor_after (max cursor clock + d) rest"

subsection \<open>Fragments and the log entries made of them\<close>

text \<open>
  A transcript fragment is a non-empty text with the role it arrived for. The fragments
  of a message, in the order the handler takes them: the input transcription, for the
  user, then the output transcription, for the model. An empty text is no fragment: the
  handler tests the text for truth.
\<close>

type_synonym fragment = "speaker \<times> string"

text \<open>
  A run of fragments committed as one log entry: the role, the texts in arrival order,
  and whether an interruption committed it. \<open>attributed\<close> is the fragments of the
  run, \<open>committed\<close> the log entry made of it. \<open>pending fs cur\<close> says that the
  pending utterance \<open>cur\<close> holds exactly the fragments \<open>fs\<close>.
\<close>

record run =
  said_by :: speaker
  parts :: "string list"
  cut :: bool

definition fragment_of :: "speaker \<Rightarrow> string option \<Rightarrow> fragment list" where
  "fragment_of r tr = (case tr of None \<Rightarrow> [] | Some t \<Rightarrow> if t = [] then [] else [(r, t)])"

definition fragments :: "message \<Rightarrow> fragment list" where
  "fragments m =
     fragment_of User (inputTranscription m) @ fragment_of Model (outputTranscription m)"

definition attributed :: "run \<Rightarrow> fragment list" where
  "attributed b = map (Pair (said_by b)) (parts b)"

definition committed :: "run \<Rightarrow> LogMessage" where
  "committed b =
     (log_role (said_by b), concat (parts b) @ (if cut b then '' [Interrupted]'' else []))"

definition pending :: "fragment list \<Rightarrow> (speaker \<times> string) option \<Rightarrow> bool" where
  "pending fs cur \<longleftrightarrow>
     (case cur of
        None \<Rightarrow> fs = []
      | Some (r, said) \<Rightarrow> fs \<noteq> [] \<and> (\<forall>f\<in>set fs. fst f = r) \<and> said = concat (map snd fs))"

text \<open>
  The transcript reconciler as the specification words it (section 4.5), run on the
  events in arrival order. Its state is the list of the fragments of the pending
  utterance: the empty list is \<^verbatim>\<open>Idle\<close>, a non-empty list of fragments of role
  \<open>R\<close> is \<^verbatim>\<open>Accumulating(R, text)\<close> with the text their concatenation. A step
  gives the runs it commits and the state after it: a fragment of the pending role is
  appended; a fragment of the other role commits the pending run and starts a new one;
  a turn-complete signal commits the pending run; an interruption commits a pending run
  of the model, marked as cut, and leaves anything else as it is.
\<close>

datatype event = Fragment speaker string | TurnComplete | Interruption

fun spec_step :: "fragment list \<Rightarrow> event \<Rightarrow> run list \<times> fragment list" where
  "spec_step [] (Fragment r t) = ([], [(r, t)])"
| "spec_step ((r', t') # p) (Fragment r t) =
     (if r' = r then ([], ((r', t') # p) @ [(r, t)])
      else ([\<lparr>said_by = r', parts = t' # map snd p, cut = False\<rparr>], [(r, t)]))"
| "spec_step [] TurnComplete = ([], [])"
| "spec_step ((r', t') # p) TurnComplete =
     ([\<lparr>said_by = r', parts = t' # map snd p, cut = False\<rparr>], [])"
| "spec_step [] Interruption = ([], [])"
| "spec_step ((r', t') # p) Interruption =
     (if r' = Model then ([\<lparr>said_by = r', parts = t' # map snd p, cut = True\<rparr>], [])
      else ([], (r', t') # p))"

fun spec_run :: "fragment list \<Rightarrow> event list \<Rightarrow> run list \<times> fragment list" where
  "spec_run p [] = ([], p)"
| "spec_run p (e # es) =
     (fst (spec_step p e) @ fst (spec_run (snd (spec_step p e)) es),
      snd (spec_run (snd (spec_step p e)) es))"

text \<open>
  The events of a message, in the order in which the handler takes them: its fragments,
  then the turn-complete flag, then the interruption flag.
\<close>

definition events_of :: "message \<Rightarrow> event list" where
  "events_of m =
     map (\<lambda>(r, t). Fragment r t) (fragments m) @
     (if turnComplete m then [TurnComplete] else []) @
     (if interrupted m then [Interruption] else [])"

fun event_fragments :: "event \<Rightarrow> fragment list" where
  "event_fragments (Fragment r t) = [(r, t)]"
| "event_fragments TurnComplete = []"
| "event_fragments Interruption = []"

fun one_role :: "fragment list \<Rightarrow> bool" where
  "one_role [] = True"
| "one_role ((r, t) # p) = (\<forall>f\<in>set p. fst f = r)"

text \<open>
  \<open>follows s es s'\<close>: from \<open>s\<close> to \<open>s'\<close> the log has only grown, and whatever
  fragments the pending utterance of \<open>s\<close> holds, the user and model entries the log
  gained are the committed forms of the runs the reconciler commits on the events
  \<open>es\<close>, in order, and the pending utterance of \<open>s'\<close> holds the fragments the
  reconciler is left with.
\<close>

definition follows :: "app_state \<Rightarrow> event list \<Rightarrow> app_state \<Rightarrow> bool" where
  "follows s es s' \<longleftrightarrow>
     (\<forall>p0. pending p0 (currentTranscriptRef s) \<longrightarrow>
        (\<exists>L. logs s' = logs s @ L \<and>
           filter (\<lambda>e. fst e \<noteq> LSystem) L = map committed (fst (spec_run p0 es)) \<and>
           pending (snd (spec_run p0 es)) (currentTranscriptRef s')))"

text \<open>Messages that carry one fragment, or the turn-complete flag, and nothing else.\<close>

definition fragment_message :: "speaker \<Rightarrow> string \<Rightarrow> message" where
  "fragment_message r t =
     \<lparr>inlineData = None,
      inputTranscription = (if r = User then Some t else None),
      outputTranscription = (if r = Model then Some t else None),
      turnComplete = False, interrupted = False\<rparr>"

definition turn_complete_signal :: message where
  "turn_complete_signal =
     \<lparr>inlineData = None, inputTranscription = None, outputTranscription = None,
      turnComplete = True, interrupted = False\<rparr>"

section \<open>Teardown is idempotent\<close>

text \<open>
  Each statement of \<^verbatim>\<open>cleanup\<close> as one update of the state: the release call is
  appended when the reference holds an object, and the reference is empty afterwards.
\<close>

lemma disconnectProcessor_upd:
  "disconnectProcessor s =
     s\<lparr>calls := calls s @ released NodeDisconnect (processorRef s), processorRef := None\<rparr>"
  by (cases "processorRef s") (simp_all add: disconnectProcessor_def released_def)

lemma disconnectAudioSource_upd:
  "disconnectAudioSource s =
     s\<lparr>calls := calls s @ released NodeDisconnect (audioSourceRef s), audioSourceRef := None\<rparr>"
  by (cases "audioSourceRef s") (simp_all add: disconnectAudioSource_def released_def)

lemma closeAudioContext_upd:
  "closeAudioContext s =
     s\<lparr>calls := calls s @ released ContextClose (audioContextRef s), audioContextRef := None\<rparr>"
  by (cases "audioContextRef s") (simp_all add: closeAudioContext_def released_def)

lemma closeInputAudioContext_upd:
  "closeInputAudioContext s =
     s\<lparr>calls := calls s @ released ContextClose (inputAudioContextRef s),
       inputAudioContextRef := None\<rparr>"
  by (cases "inputAudioContextRef s") (simp_all add: closeInputAudioContext_def released_def)

lemma stopAudioStream_upd:
  "stopAudioStream s =
     s\<lparr>calls := calls s @ released TracksStop (audioStreamRef s), audioStreamRef := None\<rparr>"
  by (cases "audioStreamRef s") (simp_all add: stopAudioStream_def released_def)

lemma stopVideoStream_upd:
  "stopVideoStream s =
     s\<lparr>calls := calls s @ released TracksStop (videoStreamRef s), videoStreamRef := None\<rparr>"
  by (cases "videoStreamRef s") (simp_all add: stopVideoStream_def released_def)

lemma clearFrameInterval_upd:
  "clearFrameInterval s =
     s\<lparr>calls := calls s @ (if frameIntervalRef s = Some 0 then []
                             else released ClearInterval (frameIntervalRef s)),
       frameIntervalRef := (if frameIntervalRef s = Some 0 then Some 0 else None)\<rparr>"
  by (cases "frameIntervalRef s") (simp_all add: clearFrameInterval_def released_def)

lemmas cleanup_steps =
  stopSources_def disconnectProcessor_upd disconnectAudioSource_upd closeAudioContext_upd
  closeInputAudioContext_upd stopAudioStream_upd stopVideoStream_upd clearFrameInterval_upd
  resetSession_def addLog_def

lemma cleanup_refs:
  "processorRef (cleanup s) = None" "audioSourceRef (cleanup s) = None"
  "audioContextRef (cleanup s) = None" "inputAudioContextRef (cleanup s) = None"
  "audioStreamRef (cleanup s) = None" "videoStreamRef (cleanup s) = None"
  "sessionRef (cleanup s) = None" "audioSourcesRef (cleanup s) = []"
  "nextStartTimeRef (cleanup s) = 0" "currentTranscriptRef (cleanup s) = None"
  "streamingLog (cleanup s) = None" "status (cleanup s) = DISCONNECTED"
  "frameIntervalRef (cleanup s) = (if frameIntervalRef s = Some 0 then Some 0 else None)"
  by (simp_all add: cleanup_def cleanup_steps)

text \<open>On a state that holds nothing, \<^verbatim>\<open>cleanup\<close> only writes its log entry.\<close>

lemma cleanup_released:
  assumes "audioSourcesRef t = []" "processorRef t = None" "audioSourceRef t = None"
    "audioContextRef t = None" "inputAudioContextRef t = None" "audioStreamRef t = None"
    "videoStreamRef t = None" "frameIntervalRef t = None \<or> frameIntervalRef t = Some 0"
    "nextStartTimeRef t = 0" "sessionRef t = None" "currentTranscriptRef t = None"
    "streamingLog t = None" "status t = DISCONNECTED"
  shows "cleanup t = addLog LSystem ''Session ended'' t"
proof -
  have "stopSources t = t" using assms by (simp add: stopSources_def)
  moreover have "disconnectProcessor t = t" using assms by (simp add: disconnectProcessor_def)
  moreover have "disconnectAudioSource t = t"
    using assms by (simp add: disconnectAudioSource_def)
  moreover have "closeAudioContext t = t" using assms by (simp add: closeAudioContext_def)
  moreover have "closeInputAudioContext t = t"
    using assms by (simp add: closeInputAudioContext_def)
  moreover have "stopAudioStream t = t" using assms by (simp add: stopAudioStream_def)
  moreover have "stopVideoStream t = t" using assms by (simp add: stopVideoStream_def)
  moreover have "clearFrameInterval t = t"
    using assms by (auto simp add: clearFrameInterval_def)
  moreover have "resetSession t = t" using assms by (simp add: resetSession_def)
  ultimately show ?thesis by (simp add: cleanup_def)
qed

lemma cleanup_twice: "cleanup (cleanup s) = addLog LSystem ''Session ended'' (cleanup s)"
  by (rule cleanup_released) (simp_all add: cleanup_refs)

text \<open>
  Claim C8. \<^verbatim>\<open>cleanup\<close> is idempotent. For every state whose timer handle is not
  the handle 0 (the handles of \<^verbatim>\<open>setInterval\<close> are positive): after one call the
  references to the processor, the microphone source node, the two audio contexts, the
  two media streams, the frame timer and the session are all empty; a second call makes
  no platform call at all (the list of calls is the one the first call left), and changes
  nothing but the log, to which it appends its ``Session ended'' entry once more; the
  cursor is 0, the in-flight set is empty, no utterance is pending and the status is
  \<open>DISCONNECTED\<close> after the first call and after the second. The state \<open>s\<close> is
  arbitrary, so this covers a call made while already disconnected. The model of
  \<^verbatim>\<open>cleanup\<close> has no error result: the one call in it that can throw,
  \<^verbatim>\<open>source.stop()\<close>, is under \<^verbatim>\<open>try\<close>.
\<close>

theorem cleanup_idempotent:
  assumes "frameIntervalRef s \<noteq> Some 0"
  shows "cleanup (cleanup s) = addLog LSystem ''Session ended'' (cleanup s) \<and>
         calls (cleanup (cleanup s)) = calls (cleanup s) \<and>
         processorRef (cleanup s) = None \<and> audioSourceRef (cleanup s) = None \<and>
         audioContextRef (cleanup s) = None \<and> inputAudioContextRef (cleanup s) = None \<and>
         audioStreamRef (cleanup s) = None \<and> videoStreamRef (cleanup s) = None \<and>
         frameIntervalRef (cleanup s) = None \<and> sessionRef (cleanup s) = None \<and>
         nextStartTimeRef (cleanup s) = 0 \<and> nextStartTimeRef (cleanup (cleanup s)) = 0 \<and>
         audioSourcesRef (cleanup s) = [] \<and> audioSourcesRef (cleanup (cleanup s)) = [] \<and>
         currentTranscriptRef (cleanup s) = None \<and>
         currentTranscriptRef (cleanup (cleanup s)) = None \<and>
         status (cleanup s) = DISCONNECTED \<and> status (cleanup (cleanup s)) = DISCONNECTED"
  using assms by (simp add: cleanup_refs cleanup_twice addLog_def)

theorem cleanup_idempotent_witness:
  "frameIntervalRef session_in_progress \<noteq> Some 0 \<and>
   calls (cleanup session_in_progress) =
     [SourceStart \<lparr>start_time = 3 / 2, duration = 1\<rparr>,
      SourceStop \<lparr>start_time = 3 / 2, duration = 1\<rparr>,
      NodeDisconnect 7, NodeDisconnect 6, ContextClose 2, ContextClose 1,
      TracksStop 3, TracksStop 4, ClearInterval 9] \<and>
   calls (cleanup (cleanup session_in_progress)) = calls (cleanup session_in_progress) \<and>
   audioStreamRef (cleanup session_in_progress) = None \<and>
   status (cleanup (cleanup session_in_progress)) = DISCONNECTED"
proof -
  have h: "frameIntervalRef session_in_progress \<noteq> Some 0"
    by (simp add: session_in_progress_def)
  have c: "calls (cleanup session_in_progress) =
     [SourceStart \<lparr>start_time = 3 / 2, duration = 1\<rparr>,
      SourceStop \<lparr>start_time = 3 / 2, duration = 1\<rparr>,
      NodeDisconnect 7, NodeDisconnect 6, ContextClose 2, ContextClose 1,
      TracksStop 3, TracksStop 4, ClearInterval 9]"
    by (simp add: cleanup_def cleanup_steps released_def session_in_progress_def)
  show ?thesis using h c cleanup_idempotent [OF h] by (simp add: addLog_def)
qed

section \<open>The message handler\<close>

lemma transcription_None: "transcription who None s = s"
  by (simp add: transcription_def)

lemma transcription_frame:
  "audioSourcesRef (transcription who tr s) = audioSourcesRef s"
  "nextStartTimeRef (transcription who tr s) = nextStartTimeRef s"
  "calls (transcription who tr s) = calls s"
  "status (transcription who tr s) = status s"
  "audioContextRef (transcription who tr s) = audioContextRef s"
  by (simp_all add: transcription_def addLog_def Let_def split: option.splits)

lemma turnCompletion_frame:
  "audioSourcesRef (turnCompletion s m) = audioSourcesRef s"
  "nextStartTimeRef (turnCompletion s m) = nextStartTimeRef s"
  "calls (turnCompletion s m) = calls s"
  "status (turnCompletion s m) = status s"
  "audioContextRef (turnCompletion s m) = audioContextRef s"
  by (simp_all add: turnCompletion_def addLog_def split: option.splits)

lemma turnCompletion_not: "\<not> turnComplete m \<Longrightarrow> turnCompletion s m = s"
  by (simp add: turnCompletion_def)

lemma interruption_playback:
  assumes "interrupted m"
  shows "audioSourcesRef (interruption s m) = []"
    "nextStartTimeRef (interruption s m) = 0"
    "calls (interruption s m) = calls s @ map SourceStop (audioSourcesRef s)"
  using assms by (simp_all add: interruption_def addLog_def Let_def split: option.splits)

lemma handleAudioOutput_decodable:
  assumes "\<forall>b. inlineData m = Some b \<longrightarrow> decode b \<noteq> None"
  shows "\<exists>s1. handleAudioOutput decode now s m = Some s1 \<and>
           set (audioSourcesRef s) \<subseteq> set (audioSourcesRef s1)"
  using assms by (auto simp add: handleAudioOutput_def Let_def split: option.splits)

lemma onmessage_interruption_signal:
  "onmessage decode now s interruption_signal = Returned (interruption s interruption_signal)"
  by (simp add: onmessage_def handleAudioOutput_def interruption_signal_def transcription_None
      turnCompletion_not)

lemma interrupted_interruption_signal: "interrupted interruption_signal"
  by (simp add: interruption_signal_def)

subsection \<open>Scheduling of reply audio\<close>

lemma onmessage_audio:
  assumes "audioContextRef s \<noteq> None" "b \<noteq> []" "decode b = Some d"
  shows "onmessage decode now s (audio_message b) =
     Returned (s\<lparr>nextStartTimeRef := max (nextStartTimeRef s) now + d,
       audioSourcesRef := audioSourcesRef s @
         [\<lparr>start_time = max (nextStartTimeRef s) now, duration = d\<rparr>],
       calls := calls s @ [SourceStart \<lparr>start_time = max (nextStartTimeRef s) now, duration = d\<rparr>]\<rparr>)"
  using assms
  by (simp add: onmessage_def handleAudioOutput_def audio_message_def transcription_None
      turnCompletion_def interruption_def Let_def)

lemma receive_audio:
  assumes "audioContextRef s \<noteq> None"
    and "\<forall>(t, b, d)\<in>set segs. b \<noteq> [] \<and> decode b = Some d"
  shows "\<exists>s'. receive decode s (map (\<lambda>(t, b, d). (t, audio_message b)) segs) = Returned s' \<and>
           audioSourcesRef s' =
             audioSourcesRef s @ schedule (nextStartTimeRef s) (map (\<lambda>(t, b, d). (t, d)) segs) \<and>
           nextStartTimeRef s' =
             cursor_after (nextStartTimeRef s) (map (\<lambda>(t, b, d). (t, d)) segs)"
  using assms
proof (induction segs arbitrary: s)
  case Nil
  then show ?case by simp
next
  case (Cons seg segs)
  obtain t b d where seg: "seg = (t, b, d)" by (cases seg)
  let ?s1 = "s\<lparr>nextStartTimeRef := max (nextStartTimeRef s) t + d,
       audioSourcesRef := audioSourcesRef s @
         [\<lparr>start_time = max (nextStartTimeRef s) t, duration = d\<rparr>],
       calls := calls s @ [SourceStart \<lparr>start_time = max (nextStartTimeRef s) t, duration = d\<rparr>]\<rparr>"
  have step: "onmessage decode t s (audio_message b) = Returned ?s1"
    using Cons.prems seg by (intro onmessage_audio) auto
  have "audioContextRef ?s1 \<noteq> None" using Cons.prems by simp
  moreover have "\<forall>(t, b, d)\<in>set segs. b \<noteq> [] \<and> decode b = Some d"
    using Cons.prems by simp
  ultimately obtain s' where
    "receive decode ?s1 (map (\<lambda>(t, b, d). (t, audio_message b)) segs) = Returned s'"
    "audioSourcesRef s' =
       audioSourcesRef ?s1 @ schedule (nextStartTimeRef ?s1) (map (\<lambda>(t, b, d). (t, d)) segs)"
    "nextStartTimeRef s' = cursor_after (nextStartTimeRef ?s1) (map (\<lambda>(t, b, d). (t, d)) segs)"
    using Cons.IH [of ?s1] by blast
  then show ?case using step seg by simp
qed

lemma length_schedule: "length (schedule c xs) = length xs"
  by (induction c xs rule: schedule.induct) simp_all

lemma duration_schedule: "k < length xs \<Longrightarrow> duration (schedule c xs ! k) = snd (xs ! k)"
proof (induction c xs arbitrary: k rule: schedule.induct)
  case (1 cursor)
  then show ?case by simp
next
  case (2 cursor clock d rest)
  then show ?case by (cases k) simp_all
qed

lemma start_schedule:
  "k < length xs \<Longrightarrow>
     start_time (schedule c xs ! k) =
       max (fst (xs ! k))
         (if k = 0 then c
          else start_time (schedule c xs ! (k - 1)) + duration (schedule c xs ! (k - 1)))"
proof (induction c xs arbitrary: k rule: schedule.induct)
  case (1 cursor)
  then show ?case by simp
next
  case (2 cursor clock d rest)
  show ?case
  proof (cases k)
    case 0
    then show ?thesis by (simp add: max.commute)
  next
    case (Suc n)
    then have n: "n < length rest" using "2.prems" by simp
    show ?thesis
    proof (cases n)
      case 0
      with Suc n "2.IH" [of 0] show ?thesis by simp
    next
      case (Suc m)
      with \<open>k = Suc n\<close> n "2.IH" [of n] show ?thesis by simp
    qed
  qed
qed

lemma schedule_Nil: "schedule c xs = [] \<longleftrightarrow> xs = []"
  by (induction c xs rule: schedule.induct) simp_all

lemma cursor_after_last:
  "xs \<noteq> [] \<Longrightarrow>
     cursor_after c xs = start_time (last (schedule c xs)) + duration (last (schedule c xs))"
proof (induction c xs rule: schedule.induct)
  case (1 cursor)
  then show ?case by simp
next
  case (2 cursor clock d rest)
  then show ?case by (cases rest) (simp_all add: schedule_Nil)
qed

lemma cursor_le_start:
  assumes "\<forall>x\<in>set xs. 0 \<le> snd x" "j < length xs"
  shows "c \<le> start_time (schedule c xs ! j)"
  using assms
proof (induction c xs arbitrary: j rule: schedule.induct)
  case (1 cursor)
  then show ?case by simp
next
  case (2 cursor clock d rest)
  show ?case
  proof (cases j)
    case 0
    then show ?thesis by simp
  next
    case (Suc n)
    then have "max cursor clock + d \<le> start_time (schedule (max cursor clock + d) rest ! n)"
      using "2.prems" "2.IH" [of n] by simp
    moreover have "0 \<le> d" using "2.prems" by simp
    ultimately show ?thesis using Suc by simp
  qed
qed

lemma schedule_no_overlap:
  assumes "\<forall>x\<in>set xs. 0 \<le> snd x" "i < j" "j < length xs"
  shows "start_time (schedule c xs ! i) + duration (schedule c xs ! i)
           \<le> start_time (schedule c xs ! j)"
  using assms
proof (induction c xs arbitrary: i j rule: schedule.induct)
  case (1 cursor)
  then show ?case by simp
next
  case (2 cursor clock d rest)
  obtain n where j: "j = Suc n" using "2.prems" by (cases j) auto
  show ?case
  proof (cases i)
    case 0
    have "max cursor clock + d \<le> start_time (schedule (max cursor clock + d) rest ! n)"
      using "2.prems" j by (intro cursor_le_start) auto
    then show ?thesis using 0 j by simp
  next
    case (Suc m)
    then show ?thesis using "2.prems" j "2.IH" [of m n] by simp
  qed
qed

lemma schedule_take: "schedule c (take n xs) = take n (schedule c xs)"
proof (induction c xs arbitrary: n rule: schedule.induct)
  case (1 cursor)
  then show ?case by simp
next
  case (2 cursor clock d rest)
  then show ?case by (cases n) simp_all
qed

lemma cursor_after_take:
  assumes "k < length xs"
  shows "cursor_after c (take (Suc k) xs) =
           start_time (schedule c xs ! k) + duration (schedule c xs ! k)"
proof -
  have "take (Suc k) xs \<noteq> []" using assms by (cases xs) simp_all
  then have "cursor_after c (take (Suc k) xs) =
      start_time (last (take (Suc k) (schedule c xs))) +
      duration (last (take (Suc k) (schedule c xs)))"
    by (simp add: cursor_after_last schedule_take)
  moreover have "last (take (Suc k) (schedule c xs)) = schedule c xs ! k"
    using assms by (simp add: take_Suc_conv_app_nth length_schedule)
  ultimately show ?thesis by simp
qed

lemma receive_audio_prefix:
  assumes "audioContextRef s \<noteq> None"
    and "\<forall>(t, b, d)\<in>set segs. b \<noteq> [] \<and> decode b = Some d"
    and "k < length segs"
  shows "nextStartTimeRef
           (state_after
              (receive decode s (take (Suc k) (map (\<lambda>(t, b, d). (t, audio_message b)) segs)))) =
         start_time (schedule (nextStartTimeRef s) (map (\<lambda>(t, b, d). (t, d)) segs) ! k) +
         duration (schedule (nextStartTimeRef s) (map (\<lambda>(t, b, d). (t, d)) segs) ! k)"
proof -
  have "\<forall>(t, b, d)\<in>set (take (Suc k) segs). b \<noteq> [] \<and> decode b = Some d"
    using assms(2) by (meson in_set_takeD)
  from receive_audio [OF assms(1) this]
  obtain s' where
    "receive decode s (map (\<lambda>(t, b, d). (t, audio_message b)) (take (Suc k) segs)) = Returned s'"
    "nextStartTimeRef s' =
       cursor_after (nextStartTimeRef s) (map (\<lambda>(t, b, d). (t, d)) (take (Suc k) segs))"
    by blast
  then show ?thesis
    using assms(3) cursor_after_take [of k "map (\<lambda>(t, b, d). (t, d)) segs" "nextStartTimeRef s"]
    by (simp add: take_map)
qed

text \<open>
  Claim C1. Let an output context exist, and let segments arrive one per message, the
  \<open>k\<close>-th with the audio clock \<open>t\<close> at its arrival and a non-empty payload \<open>b\<close>
  that decodes to a buffer of duration \<open>d\<close>, not negative. Then every message is
  handled to completion, and the nodes added to the in-flight set, in arrival order, are
  one per segment, with the duration of the segment and with start time the larger of
  the clock at arrival and the end (start plus duration) of the segment before; for the
  first segment, the larger of the clock at arrival and the cursor before. After the
  message of the \<open>k\<close>-th segment is handled, the cursor is the start of that segment
  plus its duration; so it is after the last one. Any two of the segments are apart: the
  earlier one ends no later than the later one starts.
\<close>

theorem playback_schedule:
  assumes "audioContextRef s \<noteq> None"
    and "\<forall>(t, b, d)\<in>set segs. b \<noteq> [] \<and> decode b = Some d \<and> 0 \<le> d"
  shows "\<exists>s' nodes.
      receive decode s (map (\<lambda>(t, b, d). (t, audio_message b)) segs) = Returned s' \<and>
      audioSourcesRef s' = audioSourcesRef s @ nodes \<and> length nodes = length segs \<and>
      (\<forall>k<length segs.
          duration (nodes ! k) = snd (snd (segs ! k)) \<and>
          start_time (nodes ! k) =
            max (fst (segs ! k))
              (if k = 0 then nextStartTimeRef s
               else start_time (nodes ! (k - 1)) + duration (nodes ! (k - 1)))) \<and>
      (\<forall>k<length segs.
          nextStartTimeRef
            (state_after
               (receive decode s
                  (take (Suc k) (map (\<lambda>(t, b, d). (t, audio_message b)) segs)))) =
          start_time (nodes ! k) + duration (nodes ! k)) \<and>
      nextStartTimeRef s' =
        (if segs = [] then nextStartTimeRef s
         else start_time (last nodes) + duration (last nodes)) \<and>
      (\<forall>i j. i < j \<and> j < length segs \<longrightarrow>
          start_time (nodes ! i) + duration (nodes ! i) \<le> start_time (nodes ! j))"
proof -
  let ?xs = "map (\<lambda>(t, b, d). (t, d)) segs"
  let ?nodes = "schedule (nextStartTimeRef s) ?xs"
  have ok: "\<forall>(t, b, d)\<in>set segs. b \<noteq> [] \<and> decode b = Some d"
    using assms(2) by auto
  have nonneg: "\<forall>x\<in>set ?xs. 0 \<le> snd x"
    using assms(2) by auto
  obtain s' where run: "receive decode s (map (\<lambda>(t, b, d). (t, audio_message b)) segs) = Returned s'"
    and nodes: "audioSourcesRef s' = audioSourcesRef s @ ?nodes"
    and cursor: "nextStartTimeRef s' = cursor_after (nextStartTimeRef s) ?xs"
    using receive_audio [OF assms(1) ok] by blast
  have len: "length ?nodes = length segs"
    by (simp add: length_schedule)
  have each: "\<forall>k<length segs.
          duration (?nodes ! k) = snd (snd (segs ! k)) \<and>
          start_time (?nodes ! k) =
            max (fst (segs ! k))
              (if k = 0 then nextStartTimeRef s
               else start_time (?nodes ! (k - 1)) + duration (?nodes ! (k - 1)))"
  proof (intro allI impI)
    fix k assume k: "k < length segs"
    then have k': "k < length ?xs" by simp
    have "?xs ! k = (fst (segs ! k), snd (snd (segs ! k)))"
      using k by (simp add: case_prod_beta)
    then show "duration (?nodes ! k) = snd (snd (segs ! k)) \<and>
          start_time (?nodes ! k) =
            max (fst (segs ! k))
              (if k = 0 then nextStartTimeRef s
               else start_time (?nodes ! (k - 1)) + duration (?nodes ! (k - 1)))"
      using duration_schedule [OF k', of "nextStartTimeRef s"]
        start_schedule [OF k', of "nextStartTimeRef s"] by simp
  qed
  have final: "nextStartTimeRef s' =
        (if segs = [] then nextStartTimeRef s
         else start_time (last ?nodes) + duration (last ?nodes))"
    using cursor cursor_after_last [of ?xs "nextStartTimeRef s"] by simp
  have apart: "\<forall>i j. i < j \<and> j < length segs \<longrightarrow>
          start_time (?nodes ! i) + duration (?nodes ! i) \<le> start_time (?nodes ! j)"
    using schedule_no_overlap [OF nonneg] by simp
  have advance: "\<forall>k<length segs.
          nextStartTimeRef
            (state_after
               (receive decode s
                  (take (Suc k) (map (\<lambda>(t, b, d). (t, audio_message b)) segs)))) =
          start_time (?nodes ! k) + duration (?nodes ! k)"
    using receive_audio_prefix [OF assms(1) ok] by blast
  from run nodes len each advance final apart show ?thesis by blast
qed


theorem playback_schedule_witness:
  "audioContextRef session_in_progress \<noteq> None \<and>
   sample_decode ''AAAAAAAAAAAAAAAA'' = Some 1 \<and> sample_decode ''AAAAAAAA'' = Some (1 / 2) \<and>
   sample_decode ''AAAAAAAAAAAA'' = Some (3 / 4) \<and>
   (\<exists>s' n0 n1 n2.
      receive sample_decode session_in_progress
        [(3, audio_message ''AAAAAAAAAAAAAAAA''), (3, audio_message ''AAAAAAAA''),
         (3, audio_message ''AAAAAAAAAAAA'')] = Returned s' \<and>
      audioSourcesRef s' = audioSourcesRef session_in_progress @ [n0, n1, n2] \<and>
      start_time n0 = 3 \<and> start_time n1 = 4 \<and> start_time n2 = 9 / 2 \<and>
      nextStartTimeRef s' = 21 / 4)"
proof -
  let ?segs = "[(3, ''AAAAAAAAAAAAAAAA'', 1), (3, ''AAAAAAAA'', 1 / 2),
                (3, ''AAAAAAAAAAAA'', 3 / 4)] :: (real \<times> string \<times> real) list"
  have h1: "audioContextRef session_in_progress \<noteq> None"
    by (simp add: session_in_progress_def)
  have h2: "\<forall>(t, b, d)\<in>set ?segs. b \<noteq> [] \<and> sample_decode b = Some d \<and> 0 \<le> d"
    by (simp add: sample_decode_def)
  have c: "nextStartTimeRef session_in_progress = 5 / 2"
    by (simp add: session_in_progress_def)
  from playback_schedule [OF h1 h2]
  obtain s' nodes where
    run: "receive sample_decode session_in_progress
            (map (\<lambda>(t, b, d). (t, audio_message b)) ?segs) = Returned s'"
    and nodes: "audioSourcesRef s' = audioSourcesRef session_in_progress @ nodes"
    and len: "length nodes = length ?segs"
    and each: "\<forall>k<length ?segs.
          duration (nodes ! k) = snd (snd (?segs ! k)) \<and>
          start_time (nodes ! k) =
            max (fst (?segs ! k))
              (if k = 0 then nextStartTimeRef session_in_progress
               else start_time (nodes ! (k - 1)) + duration (nodes ! (k - 1)))"
    and final: "nextStartTimeRef s' =
        (if ?segs = [] then nextStartTimeRef session_in_progress
         else start_time (last nodes) + duration (last nodes))"
    by blast
  from len obtain n0 n1 n2 where n: "nodes = [n0, n1, n2]"
    by (cases nodes; cases "tl nodes"; cases "tl (tl nodes)") auto
  from each [rule_format, of 0] n c have k0: "duration n0 = 1 \<and> start_time n0 = 3"
    by simp
  from each [rule_format, of 1] n k0 have k1: "duration n1 = 1 / 2 \<and> start_time n1 = 4"
    by simp
  from each [rule_format, of 2] n k1 have k2: "duration n2 = 3 / 4 \<and> start_time n2 = 9 / 2"
    by simp
  from final n k2 have "nextStartTimeRef s' = 21 / 4"
    by simp
  with run nodes n k0 k1 k2 h1 show ?thesis
    by (auto simp add: sample_decode_def)
qed

subsection \<open>Interruption and playback\<close>

text \<open>
  Claim C2. Let a message carry the interruption flag, and let its audio payload, if it
  has one, be decodable, so that the handler reaches the interruption block. Then for
  every prior state the handler returns, and in the state it leaves the in-flight set is
  empty and the cursor is 0. Every segment in flight was stopped: the last calls of the
  run are one \<^verbatim>\<open>stop\<close> for each member of the in-flight set as it was after the
  audio block of the same message, and that set contains every segment in flight before.
\<close>

theorem interruption_clears_playback:
  assumes "interrupted m" and "\<forall>b. inlineData m = Some b \<longrightarrow> decode b \<noteq> None"
  shows "\<exists>s1 s'. handleAudioOutput decode now s m = Some s1 \<and>
           onmessage decode now s m = Returned s' \<and>
           audioSourcesRef s' = [] \<and> nextStartTimeRef s' = 0 \<and>
           set (audioSourcesRef s) \<subseteq> set (audioSourcesRef s1) \<and>
           calls s' = calls s1 @ map SourceStop (audioSourcesRef s1)"
proof -
  from handleAudioOutput_decodable [OF assms(2)]
  obtain s1 where s1: "handleAudioOutput decode now s m = Some s1"
    and sub: "set (audioSourcesRef s) \<subseteq> set (audioSourcesRef s1)"
    by blast
  show ?thesis
    using s1 sub assms(1)
    by (simp add: onmessage_def interruption_playback transcription_frame turnCompletion_frame)
qed

theorem interruption_clears_playback_witness:
  "interrupted interruption_signal \<and> inlineData interruption_signal = None \<and>
   audioSourcesRef session_in_progress = [\<lparr>start_time = 3 / 2, duration = 1\<rparr>] \<and>
   audioSourcesRef
     (state_after (onmessage sample_decode 2 session_in_progress interruption_signal)) = [] \<and>
   nextStartTimeRef
     (state_after (onmessage sample_decode 2 session_in_progress interruption_signal)) = 0"
proof -
  have h1: "interrupted interruption_signal"
    by (simp add: interruption_signal_def)
  have h2: "\<forall>b. inlineData interruption_signal = Some b \<longrightarrow> sample_decode b \<noteq> None"
    by (simp add: interruption_signal_def)
  have h3: "audioSourcesRef session_in_progress = [\<lparr>start_time = 3 / 2, duration = 1\<rparr>]"
    by (simp add: session_in_progress_def)
  from interruption_clears_playback [OF h1 h2, of 2 session_in_progress]
  obtain s' where "onmessage sample_decode 2 session_in_progress interruption_signal = Returned s'"
    and "audioSourcesRef s' = []" and "nextStartTimeRef s' = 0"
    by blast
  with h1 h3 show ?thesis by (simp add: interruption_signal_def)
qed

subsection \<open>Interruption and the transcript\<close>

text \<open>
  Claim C4. On a message that carries only the interruption flag: if a model utterance
  with text \<open>txt\<close> is pending, the handler appends to the log the system notice
  ``Interrupted by user.'' and then the entry of role model with the text \<open>txt\<close>
  followed by `` [Interrupted]'', and no utterance is pending afterwards. If no utterance
  is pending, or a user utterance is, the pending utterance and the shown streaming text
  are what they were and the log gains the system notice only, so its user and model
  entries are unchanged; the in-flight set is emptied and the cursor is 0.
\<close>

theorem interruption_transcript:
  "(currentTranscriptRef s = Some (Model, txt) \<longrightarrow>
      (\<exists>s'. onmessage decode now s interruption_signal = Returned s' \<and>
         logs s' = logs s @ [(LSystem, ''Interrupted by user.''),
                             (LModel, txt @ '' [Interrupted]'')] \<and>
         currentTranscriptRef s' = None \<and> streamingLog s' = None)) \<and>
   (currentTranscriptRef s = None \<or> currentTranscriptRef s = Some (User, txt) \<longrightarrow>
      (\<exists>s'. onmessage decode now s interruption_signal = Returned s' \<and>
         logs s' = logs s @ [(LSystem, ''Interrupted by user.'')] \<and>
         filter (\<lambda>e. fst e \<noteq> LSystem) (logs s') = filter (\<lambda>e. fst e \<noteq> LSystem) (logs s) \<and>
         currentTranscriptRef s' = currentTranscriptRef s \<and>
         streamingLog s' = streamingLog s \<and>
         audioSourcesRef s' = [] \<and> nextStartTimeRef s' = 0))"
  by (auto simp add: onmessage_interruption_signal interruption_def
      interrupted_interruption_signal addLog_def Let_def)

theorem interruption_transcript_witness:
  "currentTranscriptRef session_in_progress = Some (Model, ''Hi the'') \<and>
   logs (state_after (onmessage sample_decode 2 session_in_progress interruption_signal)) =
     logs session_in_progress @
       [(LSystem, ''Interrupted by user.''), (LModel, ''Hi the [Interrupted]'')] \<and>
   currentTranscriptRef (initial []) = None \<and>
   logs (state_after (onmessage sample_decode 2 (initial []) interruption_signal)) =
     [(LSystem, ''Interrupted by user.'')] \<and>
   currentTranscriptRef
     (state_after (onmessage sample_decode 2 (initial []) interruption_signal)) = None"
proof -
  have h1: "currentTranscriptRef session_in_progress = Some (Model, ''Hi the'')"
    by (simp add: session_in_progress_def)
  have h2: "currentTranscriptRef (initial []) = None"
    by (simp add: initial_def)
  have l: "logs (initial []) = []"
    by (simp add: initial_def)
  from interruption_transcript [of session_in_progress "''Hi the''" sample_decode 2] h1
  obtain s' where "onmessage sample_decode 2 session_in_progress interruption_signal = Returned s'"
    and "logs s' = logs session_in_progress @
       [(LSystem, ''Interrupted by user.''), (LModel, ''Hi the'' @ '' [Interrupted]'')]"
    by blast
  moreover
  from interruption_transcript [of "initial []" "[]" sample_decode 2] h2
  obtain t' where "onmessage sample_decode 2 (initial []) interruption_signal = Returned t'"
    and "logs t' = logs (initial []) @ [(LSystem, ''Interrupted by user.'')]"
    and "currentTranscriptRef t' = currentTranscriptRef (initial [])"
    by blast
  ultimately show ?thesis using h1 h2 l by simp
qed

subsection \<open>Fragments and committed entries\<close>

lemma log_role_not_system: "log_role r \<noteq> LSystem"
  by (cases r) simp_all

lemma spec_run_append:
  "spec_run p (es @ fs) =
     (fst (spec_run p es) @ fst (spec_run (snd (spec_run p es)) fs),
      snd (spec_run (snd (spec_run p es)) fs))"
  by (induction es arbitrary: p) simp_all

lemma followsI:
  assumes "\<And>p0. pending p0 (currentTranscriptRef s) \<Longrightarrow>
      logs s' = logs s @ L \<and>
      filter (\<lambda>e. fst e \<noteq> LSystem) L = map committed (fst (spec_run p0 es)) \<and>
      pending (snd (spec_run p0 es)) (currentTranscriptRef s')"
  shows "follows s es s'"
  unfolding follows_def using assms by blast

lemma follows_same:
  assumes "logs s' = logs s" "currentTranscriptRef s' = currentTranscriptRef s"
  shows "follows s [] s'"
  by (rule followsI [where L = "[]"]) (simp add: assms)

lemma follows_trans:
  assumes "follows s es s1" "follows s1 fs s2"
  shows "follows s (es @ fs) s2"
  unfolding follows_def
proof (intro allI impI)
  fix p0 assume "pending p0 (currentTranscriptRef s)"
  with assms(1) obtain L1 where 1: "logs s1 = logs s @ L1"
    "filter (\<lambda>e. fst e \<noteq> LSystem) L1 = map committed (fst (spec_run p0 es))"
    "pending (snd (spec_run p0 es)) (currentTranscriptRef s1)"
    unfolding follows_def by blast
  with assms(2) obtain L2 where 2: "logs s2 = logs s1 @ L2"
    "filter (\<lambda>e. fst e \<noteq> LSystem) L2 =
       map committed (fst (spec_run (snd (spec_run p0 es)) fs))"
    "pending (snd (spec_run (snd (spec_run p0 es)) fs)) (currentTranscriptRef s2)"
    unfolding follows_def by blast
  have "logs s2 = logs s @ (L1 @ L2)" using 1(1) 2(1) by simp
  moreover have "filter (\<lambda>e. fst e \<noteq> LSystem) (L1 @ L2) =
      map committed (fst (spec_run p0 (es @ fs)))"
    using 1(2) 2(2) by (simp add: spec_run_append)
  moreover have "pending (snd (spec_run p0 (es @ fs))) (currentTranscriptRef s2)"
    using 2(3) by (simp add: spec_run_append)
  ultimately show "\<exists>L. logs s2 = logs s @ L \<and>
      filter (\<lambda>e. fst e \<noteq> LSystem) L = map committed (fst (spec_run p0 (es @ fs))) \<and>
      pending (snd (spec_run p0 (es @ fs))) (currentTranscriptRef s2)"
    by blast
qed

lemma pending_None: "pending p None \<longleftrightarrow> p = []"
  by (simp add: pending_def)

lemma pending_Some:
  "pending p (Some (r, said)) \<longleftrightarrow>
     (\<exists>t q. p = (r, t) # q \<and> (\<forall>f\<in>set q. fst f = r) \<and> said = t @ concat (map snd q))"
  by (cases p) (auto simp add: pending_def)

text \<open>What the three blocks do to the log and to the pending utterance.\<close>

lemma transcription_idle:
  assumes "t \<noteq> []" "currentTranscriptRef s = None"
  shows "logs (transcription r (Some t) s) = logs s"
    "currentTranscriptRef (transcription r (Some t) s) = Some (r, t)"
  using assms by (simp_all add: transcription_def Let_def)

lemma transcription_append:
  assumes "t \<noteq> []" "currentTranscriptRef s = Some (r, said)"
  shows "logs (transcription r (Some t) s) = logs s"
    "currentTranscriptRef (transcription r (Some t) s) = Some (r, said @ t)"
  using assms by (simp_all add: transcription_def Let_def)

lemma transcription_switch:
  assumes "t \<noteq> []" "currentTranscriptRef s = Some (r', said)" "r' \<noteq> r"
  shows "logs (transcription r (Some t) s) = logs s @ [(log_role r', said)]"
    "currentTranscriptRef (transcription r (Some t) s) = Some (r, t)"
  using assms by (simp_all add: transcription_def addLog_def Let_def)

lemma transcription_follows:
  "follows s (map (\<lambda>(r, t). Fragment r t) (fragment_of r tr)) (transcription r tr s)"
proof (cases "tr = None \<or> tr = Some []")
  case True
  then have "transcription r tr s = s" "fragment_of r tr = []"
    by (auto simp add: transcription_def fragment_of_def)
  then show ?thesis by (simp add: follows_same)
next
  case False
  then obtain t where t: "tr = Some t" "t \<noteq> []" by (cases tr) auto
  then have F: "map (\<lambda>(r, t). Fragment r t) (fragment_of r (Some t)) = [Fragment r t]"
    by (simp add: fragment_of_def)
  show ?thesis
  proof (cases "currentTranscriptRef s")
    case None
    show ?thesis unfolding t(1) F
      by (rule followsI [where L = "[]"])
         (auto simp add: transcription_idle [OF t(2) None] None pending_None pending_Some)
  next
    case (Some c)
    obtain r' said where c: "c = (r', said)" by (cases c)
    show ?thesis
    proof (cases "r' = r")
      case True
      with Some c have cur: "currentTranscriptRef s = Some (r, said)" by simp
      show ?thesis unfolding t(1) F
        by (rule followsI [where L = "[]"])
           (auto simp add: transcription_append [OF t(2) cur] cur pending_Some)
    next
      case False
      with Some c have cur: "currentTranscriptRef s = Some (r', said)" by simp
      show ?thesis unfolding t(1) F
        by (rule followsI [where L = "[(log_role r', said)]"])
           (use False in \<open>auto simp add: transcription_switch [OF t(2) cur False] cur
              pending_Some log_role_not_system committed_def\<close>)
    qed
  qed
qed

lemma turnCompletion_follows:
  "follows s (if turnComplete m then [TurnComplete] else []) (turnCompletion s m)"
proof (cases "turnComplete m")
  case False
  then show ?thesis by (simp add: turnCompletion_def follows_same)
next
  case True
  show ?thesis
  proof (cases "currentTranscriptRef s")
    case None
    then have "turnCompletion s m = s" by (simp add: turnCompletion_def)
    then show ?thesis using True None
      by (intro followsI [where L = "[]"]) (simp add: pending_None)
  next
    case (Some c)
    obtain r said where cur: "currentTranscriptRef s = Some (r, said)"
      using Some by (cases c) simp
    have eff: "logs (turnCompletion s m) = logs s @ [(log_role r, said)]"
      "currentTranscriptRef (turnCompletion s m) = None"
      using True cur by (simp_all add: turnCompletion_def addLog_def)
    show ?thesis using True
      by (intro followsI [where L = "[(log_role r, said)]"])
         (auto simp add: eff cur pending_Some pending_None log_role_not_system committed_def)
  qed
qed

lemma interruption_follows:
  "follows s (if interrupted m then [Interruption] else []) (interruption s m)"
proof (cases "interrupted m")
  case False
  then show ?thesis by (simp add: interruption_def follows_same)
next
  case True
  show ?thesis
  proof (cases "currentTranscriptRef s")
    case None
    then have eff: "logs (interruption s m) = logs s @ [(LSystem, ''Interrupted by user.'')]"
      "currentTranscriptRef (interruption s m) = None"
      using True by (simp_all add: interruption_def addLog_def Let_def)
    show ?thesis using True None
      by (intro followsI [where L = "[(LSystem, ''Interrupted by user.'')]"])
         (simp add: eff pending_None)
  next
    case (Some c)
    obtain r said where cur: "currentTranscriptRef s = Some (r, said)"
      using Some by (cases c) simp
    show ?thesis
    proof (cases r)
      case Model
      have eff: "logs (interruption s m) =
          logs s @ [(LSystem, ''Interrupted by user.''), (LModel, said @ '' [Interrupted]'')]"
        "currentTranscriptRef (interruption s m) = None"
        using True cur Model by (simp_all add: interruption_def addLog_def Let_def)
      show ?thesis using True Model
        by (intro followsI [where
              L = "[(LSystem, ''Interrupted by user.''), (LModel, said @ '' [Interrupted]'')]"])
           (auto simp add: eff cur pending_Some pending_None committed_def)
    next
      case User
      have eff: "logs (interruption s m) = logs s @ [(LSystem, ''Interrupted by user.'')]"
        "currentTranscriptRef (interruption s m) = Some (User, said)"
        using True cur User by (simp_all add: interruption_def addLog_def Let_def)
      show ?thesis using True User
        by (intro followsI [where L = "[(LSystem, ''Interrupted by user.'')]"])
           (auto simp add: eff cur pending_Some)
    qed
  qed
qed

lemma handleAudioOutput_follows:
  assumes "handleAudioOutput decode now s m = Some s1"
  shows "follows s [] s1"
proof -
  have "logs s1 = logs s \<and> currentTranscriptRef s1 = currentTranscriptRef s"
    using assms
    by (auto simp add: handleAudioOutput_def Let_def split: option.splits if_splits)
  then show ?thesis by (simp add: follows_same)
qed

lemma onmessage_follows:
  assumes "\<forall>b. inlineData m = Some b \<longrightarrow> decode b \<noteq> None"
  shows "\<exists>s'. onmessage decode now s m = Returned s' \<and> follows s (events_of m) s'"
proof -
  obtain s1 where s1: "handleAudioOutput decode now s m = Some s1"
    using handleAudioOutput_decodable [OF assms] by blast
  let ?u = "map (\<lambda>(r, t). Fragment r t) (fragment_of User (inputTranscription m))"
  let ?m = "map (\<lambda>(r, t). Fragment r t) (fragment_of Model (outputTranscription m))"
  let ?t = "if turnComplete m then [TurnComplete] else []"
  let ?i = "if interrupted m then [Interruption] else []"
  let ?s2 = "transcription User (inputTranscription m) s1"
  let ?s3 = "transcription Model (outputTranscription m) ?s2"
  let ?s4 = "turnCompletion ?s3 m"
  have "follows s ([] @ ?u) ?s2"
    by (rule follows_trans [OF handleAudioOutput_follows [OF s1] transcription_follows])
  then have "follows s (([] @ ?u) @ ?m) ?s3"
    by (rule follows_trans [OF _ transcription_follows])
  then have "follows s ((([] @ ?u) @ ?m) @ ?t) ?s4"
    by (rule follows_trans [OF _ turnCompletion_follows])
  then have "follows s (((([] @ ?u) @ ?m) @ ?t) @ ?i) (interruption ?s4 m)"
    by (rule follows_trans [OF _ interruption_follows])
  moreover have "(((([] @ ?u) @ ?m) @ ?t) @ ?i) = events_of m"
    by (simp add: events_of_def fragments_def)
  ultimately show ?thesis using s1 by (simp add: onmessage_def)
qed

lemma receive_follows:
  assumes "\<forall>(t, m)\<in>set ms. \<forall>b. inlineData m = Some b \<longrightarrow> decode b \<noteq> None"
  shows "\<exists>s'. receive decode s ms = Returned s' \<and>
           follows s (concat (map (\<lambda>(t, m). events_of m) ms)) s'"
  using assms
proof (induction ms arbitrary: s)
  case Nil
  then show ?case by (simp add: follows_same)
next
  case (Cons x ms)
  obtain t m where x: "x = (t, m)" by (cases x)
  then have "\<forall>b. inlineData m = Some b \<longrightarrow> decode b \<noteq> None" using Cons.prems by simp
  then obtain s1 where s1: "onmessage decode t s m = Returned s1"
    and r1: "follows s (events_of m) s1"
    using onmessage_follows by blast
  obtain s' where s': "receive decode s1 ms = Returned s'"
    and r2: "follows s1 (concat (map (\<lambda>(t, m). events_of m) ms)) s'"
    using Cons.IH [of s1] Cons.prems by auto
  show ?case using s1 s' x follows_trans [OF r1 r2] by simp
qed

lemma attributed_run:
  assumes "\<forall>f\<in>set p. fst f = r"
  shows "attributed \<lparr>said_by = r, parts = t # map snd p, cut = c\<rparr> = (r, t) # p"
proof -
  have "map (Pair r) (map snd p) = p" using assms by (induction p) auto
  then show ?thesis by (simp add: attributed_def)
qed

lemma spec_step_partition:
  assumes "one_role p"
  shows "concat (map attributed (fst (spec_step p e))) @ snd (spec_step p e) =
           p @ event_fragments e"
proof (cases p)
  case Nil
  then show ?thesis by (cases e) simp_all
next
  case (Cons f q)
  obtain r t where f: "f = (r, t)" by (cases f)
  have q: "\<forall>f\<in>set q. fst f = r" using assms Cons f by simp
  show ?thesis
    by (cases e) (use q in \<open>auto simp add: Cons f attributed_run\<close>)
qed

lemma spec_step_one_role:
  assumes "one_role p"
  shows "one_role (snd (spec_step p e))"
proof (cases p)
  case Nil
  then show ?thesis by (cases e) simp_all
next
  case (Cons f q)
  obtain r t where f: "f = (r, t)" by (cases f)
  have q: "\<forall>f\<in>set q. fst f = r" using assms Cons f by simp
  show ?thesis
    by (cases e) (simp_all add: Cons f q)
qed

lemma spec_step_runs:
  assumes "b \<in> set (fst (spec_step p e))"
  shows "parts b \<noteq> [] \<and> (cut b \<longrightarrow> said_by b = Model \<and> e = Interruption)"
proof (cases p)
  case Nil
  then show ?thesis using assms by (cases e) simp_all
next
  case (Cons f q)
  obtain r t where f: "f = (r, t)" by (cases f)
  show ?thesis using assms
    by (cases e) (simp_all add: Cons f split: if_splits)
qed

lemma spec_run_partition:
  assumes "one_role p"
  shows "concat (map attributed (fst (spec_run p es))) @ snd (spec_run p es) =
           p @ concat (map event_fragments es)"
  using assms
proof (induction es arbitrary: p)
  case Nil
  then show ?case by simp
next
  case (Cons e es)
  have "concat (map attributed (fst (spec_run p (e # es)))) @ snd (spec_run p (e # es)) =
      concat (map attributed (fst (spec_step p e))) @
      (concat (map attributed (fst (spec_run (snd (spec_step p e)) es))) @
             snd (spec_run (snd (spec_step p e)) es))"
    by simp
  also have "\<dots> = concat (map attributed (fst (spec_step p e))) @
      (snd (spec_step p e) @ concat (map event_fragments es))"
    using Cons.IH [OF spec_step_one_role [OF Cons.prems]] by simp
  also have "\<dots> = (p @ event_fragments e) @ concat (map event_fragments es)"
    using spec_step_partition [OF Cons.prems, of e] by simp
  finally show ?case by simp
qed

lemma spec_run_runs:
  assumes "b \<in> set (fst (spec_run p es))"
  shows "parts b \<noteq> [] \<and> (cut b \<longrightarrow> said_by b = Model \<and> Interruption \<in> set es)"
  using assms
proof (induction es arbitrary: p)
  case Nil
  then show ?case by simp
next
  case (Cons e es)
  then consider "b \<in> set (fst (spec_step p e))"
    | "b \<in> set (fst (spec_run (snd (spec_step p e)) es))"
    by auto
  then show ?case
  proof cases
    case 1
    from spec_step_runs [OF this] show ?thesis by simp
  next
    case 2
    from Cons.IH [OF this] show ?thesis by simp
  qed
qed

lemma event_fragments_Fragment:
  "concat (map event_fragments (map (\<lambda>(r, t). Fragment r t) fs)) = fs"
  by (induction fs) auto

lemma event_fragments_events_of:
  "concat (map event_fragments (events_of m)) = fragments m"
proof -
  have "concat (map event_fragments (if turnComplete m then [TurnComplete] else [])) = []"
    "concat (map event_fragments (if interrupted m then [Interruption] else [])) = []"
    by simp_all
  then show ?thesis
    unfolding events_of_def map_append concat_append
    by (simp only: event_fragments_Fragment append_Nil2)
qed

lemma event_fragments_messages:
  "concat (map event_fragments (concat (map (\<lambda>(t, m). events_of m) ms))) =
     concat (map (\<lambda>(t, m). fragments m) ms)"
  by (induction ms) (auto simp add: event_fragments_events_of)

text \<open>
  Claim C3, as the code has it. Start with no utterance pending and let messages arrive
  whose audio payloads, if any, decode. Then every message is handled, the log only
  grows, and the user and model entries it gains and the utterance pending at the end are
  exactly those of the reconciler of the specification run on the events of the messages
  in arrival order. So a pending utterance is committed when a fragment of the other role
  arrives, at a turn-complete signal, and, when it is the model's, at an interruption; the
  text of a committed entry is the concatenation in arrival order of the fragments of its
  run, followed by `` [Interrupted]'' exactly when an interruption committed it. The
  fragments of all messages, in arrival order, are the fragments of the committed runs,
  in the order of the log, followed by the fragments of the pending utterance: every
  fragment is in one run, none twice, or is still pending. Each committed run is
  non-empty and has one role, the role of its entry, and only runs of the model are cut.
\<close>

theorem transcript_reconciled:
  assumes "currentTranscriptRef s = None"
    and "\<forall>(t, m)\<in>set ms. \<forall>b. inlineData m = Some b \<longrightarrow> decode b \<noteq> None"
  shows "\<exists>s' L bs p.
      receive decode s ms = Returned s' \<and>
      logs s' = logs s @ L \<and>
      (bs, p) = spec_run [] (concat (map (\<lambda>(t, m). events_of m) ms)) \<and>
      filter (\<lambda>e. fst e \<noteq> LSystem) L = map committed bs \<and>
      pending p (currentTranscriptRef s') \<and>
      concat (map (\<lambda>(t, m). fragments m) ms) = concat (map attributed bs) @ p \<and>
      (\<forall>b\<in>set bs. parts b \<noteq> [] \<and> (cut b \<longrightarrow> said_by b = Model))"
proof -
  let ?es = "concat (map (\<lambda>(t, m). events_of m) ms)"
  obtain s' where run: "receive decode s ms = Returned s'"
    and f: "follows s ?es s'"
    using receive_follows [OF assms(2)] by blast
  have "pending [] (currentTranscriptRef s)"
    using assms(1) by (simp add: pending_def)
  with f obtain L where L: "logs s' = logs s @ L"
    "filter (\<lambda>e. fst e \<noteq> LSystem) L = map committed (fst (spec_run [] ?es))"
    "pending (snd (spec_run [] ?es)) (currentTranscriptRef s')"
    unfolding follows_def by blast
  have "one_role []" by simp
  from spec_run_partition [OF this, of ?es]
  have part: "concat (map (\<lambda>(t, m). fragments m) ms) =
      concat (map attributed (fst (spec_run [] ?es))) @ snd (spec_run [] ?es)"
    by (simp add: event_fragments_messages)
  have each: "\<forall>b\<in>set (fst (spec_run [] ?es)). parts b \<noteq> [] \<and> (cut b \<longrightarrow> said_by b = Model)"
    using spec_run_runs by blast
  show ?thesis
    using run L part each
    by (intro exI [of _ s'] exI [of _ L] exI [of _ "fst (spec_run [] ?es)"]
          exI [of _ "snd (spec_run [] ?es)"]) simp
qed


theorem transcript_reconciled_witness:
  "currentTranscriptRef (initial []) = None \<and>
   (\<exists>s'.
      receive sample_decode (initial [])
        [(0, fragment_message User ''Hel''), (0, fragment_message User ''lo''),
         (0, fragment_message Model ''Hi''), (1, turn_complete_signal),
         (2, fragment_message Model ''So''), (3, interruption_signal),
         (4, fragment_message User ''Wait'')] = Returned s' \<and>
      logs s' = [(LUser, ''Hello''), (LModel, ''Hi''), (LSystem, ''Interrupted by user.''),
                 (LModel, ''So [Interrupted]'')] \<and>
      filter (\<lambda>e. fst e \<noteq> LSystem) (logs s') =
        map committed
          [\<lparr>said_by = User, parts = [''Hel'', ''lo''], cut = False\<rparr>,
           \<lparr>said_by = Model, parts = [''Hi''], cut = False\<rparr>,
           \<lparr>said_by = Model, parts = [''So''], cut = True\<rparr>] \<and>
      currentTranscriptRef s' = Some (User, ''Wait'')) \<and>
   spec_run []
     [Fragment User ''Hel'', Fragment User ''lo'', Fragment Model ''Hi'', TurnComplete,
      Fragment Model ''So'', Interruption, Fragment User ''Wait''] =
     ([\<lparr>said_by = User, parts = [''Hel'', ''lo''], cut = False\<rparr>,
       \<lparr>said_by = Model, parts = [''Hi''], cut = False\<rparr>,
       \<lparr>said_by = Model, parts = [''So''], cut = True\<rparr>],
      [(User, ''Wait'')])"
proof -
  let ?ms = "[(0, fragment_message User ''Hel''), (0, fragment_message User ''lo''),
              (0, fragment_message Model ''Hi''), (1, turn_complete_signal),
              (2, fragment_message Model ''So''), (3, interruption_signal),
              (4, fragment_message User ''Wait'')] :: (real \<times> message) list"
  let ?es = "[Fragment User ''Hel'', Fragment User ''lo'', Fragment Model ''Hi'',
              TurnComplete, Fragment Model ''So'', Interruption, Fragment User ''Wait'']"
  let ?bs = "[\<lparr>said_by = User, parts = [''Hel'', ''lo''], cut = False\<rparr>,
              \<lparr>said_by = Model, parts = [''Hi''], cut = False\<rparr>,
              \<lparr>said_by = Model, parts = [''So''], cut = True\<rparr>]"
  have h1: "currentTranscriptRef (initial []) = None"
    by (simp add: initial_def)
  have h2: "\<forall>(t, m)\<in>set ?ms. \<forall>b. inlineData m = Some b \<longrightarrow> sample_decode b \<noteq> None"
    by (simp add: fragment_message_def turn_complete_signal_def interruption_signal_def)
  have l0: "logs (initial []) = []"
    by (simp add: initial_def)
  have es: "concat (map (\<lambda>(t, m). events_of m) ?ms) = ?es"
    by (simp add: events_of_def fragments_def fragment_of_def fragment_message_def
        turn_complete_signal_def interruption_signal_def)
  have sr: "spec_run [] ?es = (?bs, [(User, ''Wait'')])"
    by simp
  have logged: "logs (state_after (receive sample_decode (initial []) ?ms)) =
      [(LUser, ''Hello''), (LModel, ''Hi''), (LSystem, ''Interrupted by user.''),
       (LModel, ''So [Interrupted]'')]"
    by (simp add: onmessage_def handleAudioOutput_def transcription_def turnCompletion_def
        interruption_def addLog_def Let_def fragment_message_def turn_complete_signal_def
        interruption_signal_def initial_def)
  from transcript_reconciled [OF h1 h2]
  obtain s' L bs p where r: "receive sample_decode (initial []) ?ms = Returned s'"
    and l: "logs s' = logs (initial []) @ L"
    and b: "(bs, p) = spec_run [] (concat (map (\<lambda>(t, m). events_of m) ?ms))"
    and f: "filter (\<lambda>e. fst e \<noteq> LSystem) L = map committed bs"
    and q: "pending p (currentTranscriptRef s')"
    by blast
  from b es sr have bp: "bs = ?bs" "p = [(User, ''Wait'')]"
    by simp_all
  from q bp have cur: "currentTranscriptRef s' = Some (User, ''Wait'')"
    by (cases "currentTranscriptRef s'") (auto simp add: pending_def)
  from r logged have lg: "logs s' =
      [(LUser, ''Hello''), (LModel, ''Hi''), (LSystem, ''Interrupted by user.''),
       (LModel, ''So [Interrupted]'')]"
    by simp
  from l l0 f bp have "filter (\<lambda>e. fst e \<noteq> LSystem) (logs s') = map committed ?bs"
    by simp
  with r lg cur h1 sr show ?thesis
    by blast
qed

text \<open>
  The claim as it is stated fails in two ways. A model fragment ``Hi'' followed by an
  interruption is committed as ``Hi [Interrupted]'', which is not the concatenation of
  the fragments of the entry. And a user fragment ``Hi'' that is followed by nothing is
  in no committed entry: the log is empty and the fragment is pending.
\<close>

theorem transcript_entry_counterexample:
  "logs (state_after (receive sample_decode (initial [])
           [(0, fragment_message Model ''Hi''), (1, interruption_signal)])) =
     [(LSystem, ''Interrupted by user.''), (LModel, ''Hi [Interrupted]'')] \<and>
   logs (state_after (receive sample_decode (initial [])
           [(0, fragment_message User ''Hi'')])) = [] \<and>
   currentTranscriptRef (state_after (receive sample_decode (initial [])
           [(0, fragment_message User ''Hi'')])) = Some (User, ''Hi'')"
  by (simp add: onmessage_def handleAudioOutput_def transcription_def turnCompletion_def
      interruption_def addLog_def Let_def fragment_message_def interruption_signal_def
      initial_def)

subsection \<open>A payload that does not decode\<close>

text \<open>
  Claim C6, as the code has it. When a message carries a non-empty audio payload that
  the decoder refuses, and an output context exists, the run of the handler ends with the
  exception of the decoder before any assignment: the state it leaves is the state
  before, so the cursor, the in-flight set, the status, the pending utterance and the log
  are unchanged. Nothing is written to the log, and the rest of the same message is not
  handled. The session goes on: the messages that follow are handled from that state.
\<close>

theorem malformed_audio_rejected:
  assumes "inlineData m = Some b" "b \<noteq> []" "audioContextRef s \<noteq> None" "decode b = None"
  shows "onmessage decode now s m = Rejected s \<and>
         receive decode s ((now, m) # ms) = Rejected (state_after (receive decode s ms))"
  using assms by (simp add: onmessage_def handleAudioOutput_def)

theorem malformed_audio_rejected_witness:
  "inlineData (audio_message ''!'') = Some ''!'' \<and> ''!'' \<noteq> [] \<and>
   audioContextRef session_in_progress \<noteq> None \<and> sample_decode ''!'' = None \<and>
   onmessage sample_decode 2 session_in_progress (audio_message ''!'') =
     Rejected session_in_progress \<and>
   receive sample_decode session_in_progress [(2, audio_message ''!'')] =
     Rejected session_in_progress"
proof -
  have h1: "inlineData (audio_message ''!'') = Some ''!''"
    by (simp add: audio_message_def)
  have h2: "''!'' \<noteq> []" by simp
  have h3: "audioContextRef session_in_progress \<noteq> None"
    by (simp add: session_in_progress_def)
  have h4: "sample_decode ''!'' = None"
    by (simp add: sample_decode_def)
  show ?thesis
    using h1 h2 h3 h4
      malformed_audio_rejected [where m = "audio_message ''!''" and b = "''!''"
        and s = session_in_progress and decode = sample_decode and now = 2 and ms = "[]"]
    by simp
qed

text \<open>
  The claim has the refused segment logged. Here a connected session receives the
  payload ``!'', which the decoder refuses: the log after the run of the handler is the
  log before it.
\<close>

theorem malformed_audio_not_logged:
  "sample_decode ''!'' = None \<and>
   logs (state_after (onmessage sample_decode 2 session_in_progress (audio_message ''!''))) =
     logs session_in_progress"
  by (simp add: onmessage_def handleAudioOutput_def audio_message_def sample_decode_def
      session_in_progress_def)

subsection \<open>Remote error and remote close\<close>

text \<open>
  Claim C7, evaluated. On a connected session holding the microphone stream, the camera
  stream, both audio contexts, the processor and one segment in flight, the error
  handler sets the status to \<open>ERROR\<close> and writes its notice, and the close handler sets
  the status to \<open>DISCONNECTED\<close>; neither makes a release call, and every reference and
  the in-flight set are as before.
\<close>

theorem onerror_onclose_release_nothing:
  "status (onerror session_in_progress) = ERROR \<and>
   logs (onerror session_in_progress) =
     logs session_in_progress @ [(LSystem, ''Error occurred. Check console.'')] \<and>
   calls (onerror session_in_progress) = calls session_in_progress \<and>
   audioStreamRef (onerror session_in_progress) = Some 3 \<and>
   videoStreamRef (onerror session_in_progress) = Some 4 \<and>
   audioContextRef (onerror session_in_progress) = Some 2 \<and>
   inputAudioContextRef (onerror session_in_progress) = Some 1 \<and>
   processorRef (onerror session_in_progress) = Some 7 \<and>
   frameIntervalRef (onerror session_in_progress) = Some 9 \<and>
   audioSourcesRef (onerror session_in_progress) = [\<lparr>start_time = 3 / 2, duration = 1\<rparr>] \<and>
   status (onclose session_in_progress) = DISCONNECTED \<and>
   calls (onclose session_in_progress) = calls session_in_progress \<and>
   audioStreamRef (onclose session_in_progress) = Some 3 \<and>
   videoStreamRef (onclose session_in_progress) = Some 4 \<and>
   audioContextRef (onclose session_in_progress) = Some 2 \<and>
   inputAudioContextRef (onclose session_in_progress) = Some 1 \<and>
   processorRef (onclose session_in_progress) = Some 7 \<and>
   frameIntervalRef (onclose session_in_progress) = Some 9 \<and>
   audioSourcesRef (onclose session_in_progress) = [\<lparr>start_time = 3 / 2, duration = 1\<rparr>]"
  by (simp add: onerror_def onclose_def addLog_def session_in_progress_def)

section \<open>Opening a session\<close>

text \<open>
  Claim C5. When the stored credential is empty, \<^verbatim>\<open>connect\<close> writes the notice
  ``Credentials missing. Please configure in settings.'' to the log, opens the settings
  dialog and returns. The status is what it was, so a disconnected session stays
  disconnected and the status is not set to \<open>CONNECTING\<close>; the references to the
  audio stream, the video stream, the two audio contexts and the session are what they
  were, the client cache is untouched and no platform call is made. The result does not
  depend on what the platform would have answered.
\<close>

theorem connect_without_credential:
  assumes "apiKey s = []"
  shows "connect p s =
           (addLog LSystem ''Credentials missing. Please configure in settings.'' s)
             \<lparr>showSettings := True\<rparr> \<and>
         status (connect p s) = status s \<and>
         (status s = DISCONNECTED \<longrightarrow> status (connect p s) = DISCONNECTED) \<and>
         audioStreamRef (connect p s) = audioStreamRef s \<and>
         videoStreamRef (connect p s) = videoStreamRef s \<and>
         audioContextRef (connect p s) = audioContextRef s \<and>
         inputAudioContextRef (connect p s) = inputAudioContextRef s \<and>
         sessionRef (connect p s) = sessionRef s \<and>
         service (connect p s) = service s \<and>
         calls (connect p s) = calls s"
  using assms by (simp add: connect_def trim_def addLog_def)

theorem connect_without_credential_witness:
  "apiKey (initial []) = [] \<and> status (initial []) = DISCONNECTED \<and>
   status (connect browser (initial [])) = DISCONNECTED \<and>
   audioStreamRef (connect browser (initial [])) = None \<and>
   audioContextRef (connect browser (initial [])) = None \<and>
   inputAudioContextRef (connect browser (initial [])) = None \<and>
   sessionRef (connect browser (initial [])) = None \<and>
   logs (connect browser (initial [])) =
     [(LSystem, ''Credentials missing. Please configure in settings.'')]"
proof -
  have h: "apiKey (initial []) = []"
    by (simp add: initial_def)
  have i: "status (initial []) = DISCONNECTED" "audioStreamRef (initial []) = None"
    "audioContextRef (initial []) = None" "inputAudioContextRef (initial []) = None"
    "sessionRef (initial []) = None" "logs (initial []) = []"
    by (simp_all add: initial_def)
  show ?thesis
    using h i connect_without_credential [OF h, of browser] by (simp add: addLog_def)
qed

subsection \<open>The credential is trimmed\<close>

lemma trim_whitespace_only:
  assumes "\<forall>c\<in>set k. isWhiteSpace c"
  shows "trim k = []"
proof -
  have blank: "dropWhile isWhiteSpace k = []"
    using assms by (induction k) simp_all
  show ?thesis unfolding trim_def blank by simp
qed

lemma trim_surrounded:
  assumes pre: "\<forall>c\<in>set pre. isWhiteSpace c" and post: "\<forall>c\<in>set post. isWhiteSpace c"
    and core: "core \<noteq> []" "\<not> isWhiteSpace (hd core)" "\<not> isWhiteSpace (last core)"
  shows "trim (pre @ core @ post) = core"
proof -
  have "dropWhile isWhiteSpace (pre @ core @ post) = dropWhile isWhiteSpace (core @ post)"
    by (rule dropWhile_append2) (use pre in simp)
  also have "\<dots> = core @ post"
    using core by (cases core) simp_all
  finally have front: "dropWhile isWhiteSpace (pre @ core @ post) = core @ post" .
  have "dropWhile isWhiteSpace (rev post @ rev core) = dropWhile isWhiteSpace (rev core)"
    by (rule dropWhile_append2) (use post in simp)
  also have "\<dots> = rev core"
    using core by (cases "rev core") (simp_all add: hd_rev [symmetric])
  finally show ?thesis using front by (simp add: trim_def)
qed

lemma getGenAIClient_key:
  assumes "k \<noteq> []"
  shows "\<exists>c g'. getGenAIClient (Some k) e g = (Inr c, g') \<and> currentApiKey g' = Some k"
  using assms by (cases "aiClient g") (auto simp add: getGenAIClient_def Let_def)

lemma setupVideo_service: "service (snd (setupVideo p s)) = service s"
  by (simp add: setupVideo_def videoFailed_def addLog_def split: VideoMode.splits sum.splits)

lemma cleanup_service: "service (cleanup s) = service s"
  by (simp add: cleanup_def cleanup_steps)

lemma tryConnect_key:
  assumes "k \<noteq> []" "newAudioContext p 16000 = Inr ic" "newAudioContext p 24000 = Inr oc"
    "getUserMediaAudio p = Inr a"
  shows "(\<exists>s'. tryConnect p k s = Inr s' \<and> currentApiKey (service s') = Some k) \<or>
         (\<exists>e s'. tryConnect p k s = Inl (e, s') \<and> currentApiKey (service s') = Some k)"
proof -
  obtain c g' where g: "getGenAIClient (Some k) (envApiKey p) (service s) = (Inr c, g')"
    and k: "currentApiKey g' = Some k"
    using getGenAIClient_key [OF assms(1)] by blast
  obtain v t where v: "setupVideo p (s\<lparr>status := CONNECTING, logs := logs s @ [(LSystem, ''Initializing devices...'')],
       inputAudioContextRef := Some ic, audioContextRef := Some oc, audioStreamRef := Some a\<rparr>) = (v, t)"
    by (cases "setupVideo p (s\<lparr>status := CONNECTING, logs := logs s @ [(LSystem, ''Initializing devices...'')],
       inputAudioContextRef := Some ic, audioContextRef := Some oc, audioStreamRef := Some a\<rparr>)") 
  have "service t = service s"
    using setupVideo_service [of p "s\<lparr>status := CONNECTING, logs := logs s @ [(LSystem, ''Initializing devices...'')],
       inputAudioContextRef := Some ic, audioContextRef := Some oc, audioStreamRef := Some a\<rparr>"] v by simp
  then show ?thesis
    using assms g k v
    by (cases "liveConnect p c") (simp_all add: tryConnect_def addLog_def Let_def)
qed

text \<open>
  Claim C9. \<^verbatim>\<open>connect\<close> checks the trimmed credential. For every credential made
  of white space only, the call takes the credentials-missing path: it writes the notice,
  opens the settings dialog and does nothing else, and the result is the result for the
  empty credential, but for the stored credential itself. And when the credential is a
  non-empty text \<open>core\<close> that neither begins nor ends with white space, with white
  space \<open>pre\<close> before it and \<open>post\<close> after it, the trimmed key is \<open>core\<close>, and if
  the platform grants the two audio contexts and the microphone, so that \<^verbatim>\<open>connect\<close>
  reaches \<^verbatim>\<open>getGenAIClient\<close>, the key the client cache holds afterwards, the one
  the call was made with, is \<open>core\<close>.
\<close>

theorem connect_trims_credential:
  "((\<forall>c\<in>set (apiKey s). isWhiteSpace c) \<longrightarrow>
      connect p s =
        (addLog LSystem ''Credentials missing. Please configure in settings.'' s)
          \<lparr>showSettings := True\<rparr> \<and>
      connect p s = (connect p (s\<lparr>apiKey := []\<rparr>))\<lparr>apiKey := apiKey s\<rparr>) \<and>
   ((\<forall>c\<in>set pre. isWhiteSpace c) \<and> (\<forall>c\<in>set post. isWhiteSpace c) \<and>
    core \<noteq> [] \<and> \<not> isWhiteSpace (hd core) \<and> \<not> isWhiteSpace (last core) \<and>
    apiKey s = pre @ core @ post \<longrightarrow>
      trim (apiKey s) = core \<and>
      (newAudioContext p 16000 = Inr ic \<and> newAudioContext p 24000 = Inr oc \<and>
       getUserMediaAudio p = Inr a \<longrightarrow>
         currentApiKey (service (connect p s)) = Some core))"
proof -
  have blank: "(\<forall>c\<in>set (apiKey s). isWhiteSpace c) \<longrightarrow>
      connect p s =
        (addLog LSystem ''Credentials missing. Please configure in settings.'' s)
          \<lparr>showSettings := True\<rparr> \<and>
      connect p s = (connect p (s\<lparr>apiKey := []\<rparr>))\<lparr>apiKey := apiKey s\<rparr>"
    by (simp add: connect_def trim_whitespace_only addLog_def)
  have used: "currentApiKey (service (connect p s)) = Some core"
    if t: "trim (apiKey s) = core" and c: "core \<noteq> []"
      and g: "newAudioContext p 16000 = Inr ic" "newAudioContext p 24000 = Inr oc"
        "getUserMediaAudio p = Inr a"
  proof -
    from tryConnect_key [OF c g, of s] show ?thesis
      using t c by (auto simp add: connect_def cleanup_service addLog_def)
  qed
  show ?thesis
    using blank used trim_surrounded [of pre post core] by auto
qed


theorem connect_trims_credential_witness:
  "isWhiteSpace 0x20 \<and> isWhiteSpace 0x9 \<and> isWhiteSpace 0x3000 \<and> isWhiteSpace 0xA \<and>
   logs (connect browser (initial [0x20, 0x9, 0x3000])) =
     [(LSystem, ''Credentials missing. Please configure in settings.'')] \<and>
   status (connect browser (initial [0x20, 0x9, 0x3000])) = DISCONNECTED \<and>
   [0x41, 0x20, 0x42] \<noteq> ([] :: js_string) \<and> \<not> isWhiteSpace 0x41 \<and>
   \<not> isWhiteSpace 0x42 \<and>
   apiKey (initial [0x20, 0x41, 0x20, 0x42, 0xA]) = [0x20] @ [0x41, 0x20, 0x42] @ [0xA] \<and>
   newAudioContext browser 16000 = Inr 1 \<and> newAudioContext browser 24000 = Inr 2 \<and>
   getUserMediaAudio browser = Inr 3 \<and>
   trim (apiKey (initial [0x20, 0x41, 0x20, 0x42, 0xA])) = [0x41, 0x20, 0x42] \<and>
   currentApiKey (service (connect browser (initial [0x20, 0x41, 0x20, 0x42, 0xA]))) =
     Some [0x41, 0x20, 0x42]"
proof -
  have blank: "\<forall>c\<in>set (apiKey (initial [0x20, 0x9, 0x3000])). isWhiteSpace c"
    by (simp add: initial_def isWhiteSpace_def)
  have i: "logs (initial [0x20, 0x9, 0x3000]) = []"
    "status (initial [0x20, 0x9, 0x3000]) = DISCONNECTED"
    by (simp_all add: initial_def)
  have around: "(\<forall>c\<in>set [0x20]. isWhiteSpace c) \<and> (\<forall>c\<in>set [0xA]. isWhiteSpace c)"
    by (simp add: isWhiteSpace_def)
  have core: "[0x41, 0x20, 0x42] \<noteq> ([] :: js_string) \<and>
      \<not> isWhiteSpace (hd [0x41, 0x20, 0x42]) \<and> \<not> isWhiteSpace (last [0x41, 0x20, 0x42])"
    by (simp add: isWhiteSpace_def)
  have key: "apiKey (initial [0x20, 0x41, 0x20, 0x42, 0xA]) =
      [0x20] @ [0x41, 0x20, 0x42] @ [0xA]"
    by (simp add: initial_def)
  have grants: "newAudioContext browser 16000 = Inr 1 \<and>
      newAudioContext browser 24000 = Inr 2 \<and> getUserMediaAudio browser = Inr 3"
    by (simp add: browser_def)
  from blank i
    connect_trims_credential [where s = "initial [0x20, 0x9, 0x3000]" and p = browser]
  have first: "logs (connect browser (initial [0x20, 0x9, 0x3000])) =
      [(LSystem, ''Credentials missing. Please configure in settings.'')] \<and>
    status (connect browser (initial [0x20, 0x9, 0x3000])) = DISCONNECTED"
    by (simp add: addLog_def)
  from around core key grants
    connect_trims_credential [where s = "initial [0x20, 0x41, 0x20, 0x42, 0xA]"
      and p = browser and pre = "[0x20]" and core = "[0x41, 0x20, 0x42]" and post = "[0xA]"
      and ic = 1 and oc = 2 and a = 3]
  have second: "trim (apiKey (initial [0x20, 0x41, 0x20, 0x42, 0xA])) = [0x41, 0x20, 0x42] \<and>
    currentApiKey (service (connect browser (initial [0x20, 0x41, 0x20, 0x42, 0xA]))) =
      Some [0x41, 0x20, 0x42]"
    by blast
  have ws: "isWhiteSpace 0x20 \<and> isWhiteSpace 0x9 \<and> isWhiteSpace 0x3000 \<and> isWhiteSpace 0xA \<and>
      \<not> isWhiteSpace 0x41 \<and> \<not> isWhiteSpace 0x42"
    by (simp add: isWhiteSpace_def)
  from ws key grants first second show ?thesis by simp
qed

section \<open>The client cache\<close>

text \<open>
  Claim C10. A key is absent when it is \<^verbatim>\<open>undefined\<close> or the empty string, the
  two values the code takes for false. For every non-empty key \<open>k\<close> and every state
  \<open>g\<close> of the module: a call with \<open>k\<close> returns a client, and the next call with
  \<open>k\<close> returns the same client and leaves the module as it is, so nothing is
  constructed; a call with \<open>k\<close> when the cached key is another one returns a newly
  constructed client with key \<open>k\<close> and stores it and \<open>k\<close>; a call without a key
  argument and with environment key \<open>k\<close> does what a call with \<open>k\<close> does. For all
  arguments the call throws exactly when the argument and the environment key are both
  absent, and then the module is left as it is.
\<close>

theorem getGenAIClient_cache:
  "(k \<noteq> [] \<longrightarrow>
      (\<exists>c g1. getGenAIClient (Some k) e g = (Inr c, g1) \<and>
               getGenAIClient (Some k) e' g1 = (Inr c, g1))) \<and>
   (k \<noteq> [] \<and> currentApiKey g \<noteq> Some k \<longrightarrow>
      getGenAIClient (Some k) e g =
        (Inr \<lparr>client_key = k, serial = constructed g\<rparr>,
         g\<lparr>aiClient := Some \<lparr>client_key = k, serial = constructed g\<rparr>,
           currentApiKey := Some k, constructed := Suc (constructed g)\<rparr>)) \<and>
   (k \<noteq> [] \<longrightarrow> getGenAIClient None (Some k) g = getGenAIClient (Some k) e g) \<and>
   ((\<exists>msg. fst (getGenAIClient a e g) = Inl msg) \<longleftrightarrow> \<not> truthy a \<and> \<not> truthy e) \<and>
   (\<not> truthy a \<and> \<not> truthy e \<longrightarrow> snd (getGenAIClient a e g) = g)"
proof -
  have same: "k \<noteq> [] \<longrightarrow>
      (\<exists>c g1. getGenAIClient (Some k) e g = (Inr c, g1) \<and>
               getGenAIClient (Some k) e' g1 = (Inr c, g1))"
    by (cases "aiClient g") (auto simp add: getGenAIClient_def Let_def)
  have other: "k \<noteq> [] \<and> currentApiKey g \<noteq> Some k \<longrightarrow>
      getGenAIClient (Some k) e g =
        (Inr \<lparr>client_key = k, serial = constructed g\<rparr>,
         g\<lparr>aiClient := Some \<lparr>client_key = k, serial = constructed g\<rparr>,
           currentApiKey := Some k, constructed := Suc (constructed g)\<rparr>)"
    by (cases "aiClient g") (auto simp add: getGenAIClient_def Let_def)
  have env: "k \<noteq> [] \<longrightarrow> getGenAIClient None (Some k) g = getGenAIClient (Some k) e g"
    by (simp add: getGenAIClient_def)
  have throws: "(\<exists>msg. fst (getGenAIClient a e g) = Inl msg) \<longleftrightarrow> \<not> truthy a \<and> \<not> truthy e"
    by (cases a; cases e; cases "aiClient g")
       (auto simp add: getGenAIClient_def Let_def split: option.splits)
  have kept: "\<not> truthy a \<and> \<not> truthy e \<longrightarrow> snd (getGenAIClient a e g) = g"
    by (cases a; cases e) (auto simp add: getGenAIClient_def Let_def)
  from same other env throws kept show ?thesis by blast
qed

theorem getGenAIClient_cache_witness:
  "[0x41] \<noteq> ([] :: js_string) \<and>
   currentApiKey (service (initial [])) \<noteq> Some [0x41] \<and>
   \<not> truthy None \<and> \<not> truthy (Some []) \<and>
   (\<exists>c g1. getGenAIClient (Some [0x41]) (Some []) (service (initial [])) = (Inr c, g1) \<and>
            getGenAIClient (Some [0x41]) None g1 = (Inr c, g1)) \<and>
   fst (getGenAIClient (Some [0x41]) (Some []) (service (initial []))) =
     Inr \<lparr>client_key = [0x41], serial = 0\<rparr> \<and>
   getGenAIClient None (Some [0x41]) (service (initial [])) =
     getGenAIClient (Some [0x41]) (Some []) (service (initial [])) \<and>
   (\<exists>msg. fst (getGenAIClient None (Some []) (service (initial []))) = Inl msg) \<and>
   snd (getGenAIClient None (Some []) (service (initial []))) = service (initial [])"
proof -
  have h1: "[0x41] \<noteq> ([] :: js_string)" by simp
  have h2: "currentApiKey (service (initial [])) \<noteq> Some [0x41]"
    by (simp add: initial_def)
  have h3: "\<not> truthy None \<and> \<not> truthy (Some [])" by simp
  have c: "constructed (service (initial [])) = 0"
    by (simp add: initial_def)
  show ?thesis
    using h1 h2 h3 c
      getGenAIClient_cache [where k = "[0x41]" and e = "Some []" and g = "service (initial [])"
        and e' = None and a = None]
    by auto
qed

end
